theory Spec2Isabelle
  imports Complex_Main
begin

section \<open>Python values, exceptions and the process state\<close>

text \<open>
  The development embeds \<^verbatim>\<open>get_timer\<close> and \<^verbatim>\<open>time_func\<close> of \<^verbatim>\<open>perf.py\<close>.
  Exceptions are values: the built-in ones the two functions can raise themselves, and
  \<open>Raised e\<close> for an exception \<open>e\<close> coming out of the timed function.
  Seconds and time stamps are Python floats; they are idealised as real numbers (no
  rounding, no infinities, no NaN). Integers are Python's unbounded ones. The messages
  printed under \<^verbatim>\<open>verbose\<close> change nothing the harness computes and are left out.
\<close>

datatype 'e error =
    ValueError string
  | UnboundLocalError string
  | KeyError string
  | ZeroDivisionError
  | Raised 'e

text \<open>
  What \<^verbatim>\<open>isinstance\<close> can tell apart in the two argument checks: a Numpy array (a
  reference to an array object of the heap), a dictionary, anything else.
\<close>

datatype 'k pyobj = NDArray nat | Dict 'k | Other

text \<open>
  Every effect of the harness is recorded, in program order, in a ghost trace. A call
  records the array object handed to the function and its contents at that moment; it is
  followed by the function's outcome.
\<close>

datatype ('a, 'r, 'e) event =
    GcCollect
  | GcDisable
  | GcEnable
  | Alloc nat
  | CopyTo nat nat
  | Now real
  | Delta real real
  | Call nat "'a list"
  | Return 'r
  | Raise 'e

text \<open>
  The state of the process: the array objects (an array's address is its index in
  \<open>heap\<close>, a fresh array is appended), the collector's flag, the world outside the
  harness (whatever the clock and the timed function read and change), and the trace.
\<close>

record ('a, 'r, 'e, 'w) state =
  heap :: "'a list list"
  gc_enabled :: bool
  world :: 'w
  trace :: "('a, 'r, 'e) event list"

section \<open>Timer resolution\<close>

text \<open>
  A timer module, by the attributes \<^verbatim>\<open>get_timer\<close> reads from it. Reading a clock
  returns a time stamp and may change the world.
\<close>

record 'w pymodule =
  itime :: "'w \<Rightarrow> real \<times> 'w"
  itime_delta_in_seconds :: "real \<Rightarrow> real \<Rightarrow> real"
  default_timer :: "'w \<Rightarrow> real \<times> 'w"
  time :: "'w \<Rightarrow> real \<times> 'w"

record 'w Timer =
  name :: string
  module :: "'w pymodule"
  now :: "'w \<Rightarrow> real \<times> 'w"
  time_delta :: "real \<Rightarrow> real \<Rightarrow> real"

text \<open>
  The \<^verbatim>\<open>for\<close> loop of \<^verbatim>\<open>get_timer\<close>: \<open>import_module\<close> yields \<open>None\<close> for an
  \<^verbatim>\<open>ImportError\<close>, which the loop swallows; the first module that imports ends the loop
  and binds \<^verbatim>\<open>timer_name\<close> and \<^verbatim>\<open>timer_module\<close>. When the loop runs out, both stay
  unbound (\<open>None\<close>).
\<close>

fun find_module :: "(string \<Rightarrow> 'm option) \<Rightarrow> string list \<Rightarrow> (string \<times> 'm) option" where
  "find_module import_module [] = None"
| "find_module import_module (mod_name # rest) =
     (case import_module mod_name of
        None \<Rightarrow> find_module import_module rest
      | Some timer_module \<Rightarrow> Some (mod_name, timer_module))"

text \<open>
  The two dictionaries are indexed with \<^verbatim>\<open>timer_name\<close>: an unbound name raises
  \<^verbatim>\<open>UnboundLocalError\<close>, a name that is not a key raises \<^verbatim>\<open>KeyError\<close>.
\<close>

definition get_timer ::
  "(string \<Rightarrow> 'w pymodule option) \<Rightarrow> string list \<Rightarrow> 'e error + 'w Timer" where
  "get_timer import_module time_modules =
     (case find_module import_module time_modules of
        None \<Rightarrow> Inl (UnboundLocalError ''timer_name'')
      | Some (timer_name, timer_module) \<Rightarrow>
          if timer_name = ''itimer'' then
            Inr \<lparr>name = timer_name, module = timer_module,
                 now = itime timer_module,
                 time_delta = itime_delta_in_seconds timer_module\<rparr>
          else if timer_name = ''timeit'' then
            Inr \<lparr>name = timer_name, module = timer_module,
                 now = default_timer timer_module,
                 time_delta = (\<lambda>t0 t1. t1 - t0)\<rparr>
          else if timer_name = ''time'' then
            Inr \<lparr>name = timer_name, module = timer_module,
                 now = time timer_module,
                 time_delta = (\<lambda>t0 t1. t1 - t0)\<rparr>
          else Inl (KeyError timer_name))"

definition default_time_modules :: "string list" where
  "default_time_modules = [''itimer'', ''timeit'', ''time'']"

section \<open>The primitive effects of the harness\<close>

text \<open>
  What the interpreter and Numpy supply: which modules import, and the contents of
  memory that \<^verbatim>\<open>np.empty\<close> and \<^verbatim>\<open>np.empty_like\<close> hand out uninitialised.
\<close>

record ('a, 'w) environment =
  import_module :: "string \<Rightarrow> 'w pymodule option"
  uninit_float :: "nat \<Rightarrow> real"
  uninit_elem :: "nat \<Rightarrow> 'a"

definition np_empty :: "('a, 'w) environment \<Rightarrow> nat \<Rightarrow> real list" where
  "np_empty env n = map (uninit_float env) [0..<n]"

definition gc_collect :: "('a, 'r, 'e, 'w) state \<Rightarrow> ('a, 'r, 'e, 'w) state" where
  "gc_collect st = st\<lparr>trace := trace st @ [GcCollect]\<rparr>"

definition gc_disable :: "('a, 'r, 'e, 'w) state \<Rightarrow> ('a, 'r, 'e, 'w) state" where
  "gc_disable st = st\<lparr>gc_enabled := False, trace := trace st @ [GcDisable]\<rparr>"

definition gc_enable :: "('a, 'r, 'e, 'w) state \<Rightarrow> ('a, 'r, 'e, 'w) state" where
  "gc_enable st = st\<lparr>gc_enabled := True, trace := trace st @ [GcEnable]\<rparr>"

text \<open>\<^verbatim>\<open>np.empty_like(x)\<close>: a new array object of the shape of \<open>x\<close>.\<close>

definition empty_like ::
  "('a, 'w) environment \<Rightarrow> nat \<Rightarrow> ('a, 'r, 'e, 'w) state \<Rightarrow> nat \<times> ('a, 'r, 'e, 'w) state" where
  "empty_like env x st =
     (length (heap st),
      st\<lparr>heap := heap st @ [map (uninit_elem env) [0..<length (heap st ! x)]],
         trace := trace st @ [Alloc (length (heap st))]\<rparr>)"

text \<open>\<^verbatim>\<open>np.copyto(dst, src)\<close> on arrays of one shape.\<close>

definition copyto :: "nat \<Rightarrow> nat \<Rightarrow> ('a, 'r, 'e, 'w) state \<Rightarrow> ('a, 'r, 'e, 'w) state" where
  "copyto dst src st =
     st\<lparr>heap := (heap st)[dst := heap st ! src], trace := trace st @ [CopyTo dst src]\<rparr>"

definition timer_now ::
  "'w Timer \<Rightarrow> ('a, 'r, 'e, 'w) state \<Rightarrow> real \<times> ('a, 'r, 'e, 'w) state" where
  "timer_now timer st =
     (case now timer (world st) of
        (t, w) \<Rightarrow> (t, st\<lparr>world := w, trace := trace st @ [Now t]\<rparr>))"

definition timer_time_delta ::
  "'w Timer \<Rightarrow> real \<Rightarrow> real \<Rightarrow> ('a, 'r, 'e, 'w) state \<Rightarrow> real \<times> ('a, 'r, 'e, 'w) state" where
  "timer_time_delta timer t0 t1 st =
     (time_delta timer t0 t1, st\<lparr>trace := trace st @ [Delta t0 t1]\<rparr>)"

text \<open>
  The timed function is given the keyword arguments, the contents of the array it is
  handed and the world; it returns a result or raises, and leaves new contents in that
  array and a new world. It reaches no other array of the heap.
\<close>

type_synonym ('k, 'a, 'r, 'e, 'w) func =
  "'k \<Rightarrow> 'a list \<Rightarrow> 'w \<Rightarrow> ('e + 'r) \<times> 'a list \<times> 'w"

definition call ::
  "('k, 'a, 'r, 'e, 'w) func \<Rightarrow> 'k \<Rightarrow> nat \<Rightarrow> ('a, 'r, 'e, 'w) state
     \<Rightarrow> ('e + 'r) \<times> ('a, 'r, 'e, 'w) state" where
  "call func kwargs buf st =
     (case func kwargs (heap st ! buf) (world st) of
        (out, contents, w) \<Rightarrow>
          (out,
           st\<lparr>heap := (heap st)[buf := contents], world := w,
              trace := trace st @
                [Call buf (heap st ! buf),
                 (case out of Inl e \<Rightarrow> Raise e | Inr r \<Rightarrow> Return r)]\<rparr>))"

section \<open>The timing harness\<close>

text \<open>\<^verbatim>\<open>int(v)\<close> on a float truncates towards zero.\<close>

definition py_int :: "real \<Rightarrow> int" where
  "py_int v = (if 0 \<le> v then \<lfloor>v\<rfloor> else \<lceil>v\<rceil>)"

text \<open>
  The block of \<^verbatim>\<open>time_func\<close> under the comment "Determine optimal batch size": the
  requested size, or \<^verbatim>\<open>1 + int(5/time_tot)\<close> when \<^verbatim>\<open>time_tot * batch_size > 5\<close>. The
  division raises when its divisor is zero. The product and the quotient are taken in
  exact arithmetic: the rounding of the two double operations, and the
  \<^verbatim>\<open>OverflowError\<close> of converting an integer beyond the range of a double, are not
  part of this model. What is proved of the resulting number is therefore its sign, that
  it is the requested size when the guard fails, and how the loops use it; its exact
  value where the guard holds is not.
\<close>

definition determine_batch_size :: "real \<Rightarrow> int \<Rightarrow> 'e error + int" where
  "determine_batch_size time_tot batch_size =
     (if time_tot * of_int batch_size > 5 then
        (if time_tot = 0 then Inl ZeroDivisionError
         else Inr (1 + py_int (5 / time_tot)))
      else Inr batch_size)"

text \<open>
  The inner loop of the refreshing branch, \<open>n\<close> iterations to go: copy, stamp, call,
  stamp, accumulate.
\<close>

fun batch_refresh ::
  "('k, 'a, 'r, 'e, 'w) func \<Rightarrow> 'k \<Rightarrow> 'w Timer \<Rightarrow> nat \<Rightarrow> nat \<Rightarrow> nat \<Rightarrow> real \<times> 'r
     \<Rightarrow> ('a, 'r, 'e, 'w) state \<Rightarrow> ('e error + real \<times> 'r) \<times> ('a, 'r, 'e, 'w) state" where
  "batch_refresh func kwargs timer buf x 0 (time_tot, res) st = (Inr (time_tot, res), st)"
| "batch_refresh func kwargs timer buf x (Suc n) (time_tot, res) st =
     (case timer_now timer (copyto buf x st) of
        (t0, st2) \<Rightarrow>
          (case call func kwargs buf st2 of
             (Inl e, st3) \<Rightarrow> (Inl (Raised e), st3)
           | (Inr res', st3) \<Rightarrow>
               (case timer_now timer st3 of
                  (t1, st4) \<Rightarrow>
                    (case timer_time_delta timer t0 t1 st4 of
                       (d, st5) \<Rightarrow>
                         batch_refresh func kwargs timer buf x n (time_tot + d, res') st5))))"

text \<open>The inner loop of the other branch: calls only.\<close>

fun batch_calls ::
  "('k, 'a, 'r, 'e, 'w) func \<Rightarrow> 'k \<Rightarrow> nat \<Rightarrow> nat \<Rightarrow> 'r
     \<Rightarrow> ('a, 'r, 'e, 'w) state \<Rightarrow> ('e error + 'r) \<times> ('a, 'r, 'e, 'w) state" where
  "batch_calls func kwargs buf 0 res st = (Inr res, st)"
| "batch_calls func kwargs buf (Suc n) res st =
     (case call func kwargs buf st of
        (Inl e, st1) \<Rightarrow> (Inl (Raised e), st1)
      | (Inr res', st1) \<Rightarrow> batch_calls func kwargs buf n res' st1)"

text \<open>
  The body of the outer loop up to the assignment to \<^verbatim>\<open>times_list[i]\<close>: it yields
  \<^verbatim>\<open>time_tot\<close> and the last result. \<^verbatim>\<open>range\<close> of a negative number is empty.
\<close>

definition batch ::
  "('k, 'a, 'r, 'e, 'w) func \<Rightarrow> 'k \<Rightarrow> 'w Timer \<Rightarrow> nat \<Rightarrow> nat \<Rightarrow> bool \<Rightarrow> int \<Rightarrow> 'r
     \<Rightarrow> ('a, 'r, 'e, 'w) state \<Rightarrow> ('e error + real \<times> 'r) \<times> ('a, 'r, 'e, 'w) state" where
  "batch func kwargs timer buf x refresh_buffer actual_batch_size res st =
     (if refresh_buffer then
        batch_refresh func kwargs timer buf x (nat actual_batch_size) (0, res) st
      else
        (case timer_now timer st of
           (t0, st1) \<Rightarrow>
             (case batch_calls func kwargs buf (nat actual_batch_size) res st1 of
                (Inl e, st2) \<Rightarrow> (Inl e, st2)
              | (Inr res', st2) \<Rightarrow>
                  (case timer_now timer st2 of
                     (t1, st3) \<Rightarrow>
                       (case timer_time_delta timer t0 t1 st3 of
                          (d, st4) \<Rightarrow> (Inr (0 + d, res'), st4))))))"

text \<open>
  The outer loop, over the indices still to do. The mean is a float division by an
  integer, which raises when the integer is zero.
\<close>

fun measurements ::
  "('k, 'a, 'r, 'e, 'w) func \<Rightarrow> 'k \<Rightarrow> 'w Timer \<Rightarrow> nat \<Rightarrow> nat \<Rightarrow> bool \<Rightarrow> int \<Rightarrow> nat list
     \<Rightarrow> real list \<times> 'r \<Rightarrow> ('a, 'r, 'e, 'w) state
     \<Rightarrow> ('e error + real list \<times> 'r) \<times> ('a, 'r, 'e, 'w) state" where
  "measurements func kwargs timer buf x refresh_buffer actual_batch_size [] (times_list, res) st =
     (Inr (times_list, res), st)"
| "measurements func kwargs timer buf x refresh_buffer actual_batch_size (i # rest) (times_list, res) st =
     (case batch func kwargs timer buf x refresh_buffer actual_batch_size res st of
        (Inl e, st1) \<Rightarrow> (Inl e, st1)
      | (Inr (time_tot, res'), st1) \<Rightarrow>
          if actual_batch_size = 0 then (Inl ZeroDivisionError, st1)
          else
            measurements func kwargs timer buf x refresh_buffer actual_batch_size rest
              (times_list[i := time_tot / of_int actual_batch_size], res') st1)"

text \<open>
  The block of \<^verbatim>\<open>time_func\<close> under the comment "warm-up": a collection, the collector
  switched off, one call between two time stamps.
\<close>

definition warm_up ::
  "('k, 'a, 'r, 'e, 'w) func \<Rightarrow> 'k \<Rightarrow> 'w Timer \<Rightarrow> nat
     \<Rightarrow> ('a, 'r, 'e, 'w) state \<Rightarrow> ('e error + real \<times> 'r) \<times> ('a, 'r, 'e, 'w) state" where
  "warm_up func kwargs timer buf st =
     (case timer_now timer (gc_disable (gc_collect st)) of
        (t0, st1) \<Rightarrow>
          (case call func kwargs buf st1 of
             (Inl e, st2) \<Rightarrow> (Inl (Raised e), st2)
           | (Inr res, st2) \<Rightarrow>
               (case timer_now timer st2 of
                  (t1, st3) \<Rightarrow>
                    (case timer_time_delta timer t0 t1 st3 of
                       (time_tot, st4) \<Rightarrow> (Inr (time_tot, res), st4)))))"

text \<open>
  The body of \<^verbatim>\<open>time_func\<close> after the argument checks and the resolution of the timer,
  in the order of the source: the array of measurements (\<^verbatim>\<open>np.empty\<close> refuses a negative
  length), the buffer and the copy of \<open>x\<close> into it, the warm-up, the calibration, the
  measurements, and \<^verbatim>\<open>gc.enable()\<close> as the last statement before the return. An
  exception leaves at the point where it is raised, with the state as it is there.
\<close>

definition run ::
  "('a, 'w) environment \<Rightarrow> ('k, 'a, 'r, 'e, 'w) func \<Rightarrow> nat \<Rightarrow> 'k \<Rightarrow> 'w Timer \<Rightarrow> int \<Rightarrow> int \<Rightarrow> bool
     \<Rightarrow> ('a, 'r, 'e, 'w) state \<Rightarrow> ('e error + real list \<times> 'r) \<times> ('a, 'r, 'e, 'w) state" where
  "run env func x kwargs timer batch_size repetitions refresh_buffer st =
     (if repetitions < 0 then (Inl (ValueError ''negative dimensions are not allowed''), st)
      else
        (case empty_like env x st of
           (buf, st1) \<Rightarrow>
             (case warm_up func kwargs timer buf (copyto buf x st1) of
                (Inl e, st2) \<Rightarrow> (Inl e, st2)
              | (Inr (time_tot, res), st2) \<Rightarrow>
                  (case determine_batch_size time_tot batch_size of
                     Inl e \<Rightarrow> (Inl e, st2)
                   | Inr actual_batch_size \<Rightarrow>
                       (case measurements func kwargs timer buf x refresh_buffer actual_batch_size
                               [0..<nat repetitions] (np_empty env (nat repetitions), res) st2 of
                          (Inl e, st3) \<Rightarrow> (Inl e, st3)
                        | (Inr r, st3) \<Rightarrow> (Inr r, gc_enable st3))))))"

text \<open>\<^verbatim>\<open>if not timer: timer = get_timer()\<close>, with the default preference order.\<close>

definition resolve_timer :: "('a, 'w) environment \<Rightarrow> 'w Timer option \<Rightarrow> 'e error + 'w Timer" where
  "resolve_timer env timer =
     (case timer of
        None \<Rightarrow> get_timer (import_module env) default_time_modules
      | Some t \<Rightarrow> Inr t)"

definition time_func ::
  "('a, 'w) environment \<Rightarrow> ('k, 'a, 'r, 'e, 'w) func \<Rightarrow> 'k pyobj \<Rightarrow> 'k pyobj \<Rightarrow> 'w Timer option
     \<Rightarrow> int \<Rightarrow> int \<Rightarrow> bool
     \<Rightarrow> ('a, 'r, 'e, 'w) state \<Rightarrow> ('e error + real list \<times> 'r) \<times> ('a, 'r, 'e, 'w) state" where
  "time_func env func x kwargs timer batch_size repetitions refresh_buffer st =
     (case x of
        NDArray xa \<Rightarrow>
          (case kwargs of
             Dict kw \<Rightarrow>
               (case resolve_timer env timer of
                  Inl e \<Rightarrow> (Inl e, st)
                | Inr tm \<Rightarrow> run env func xa kw tm batch_size repetitions refresh_buffer st)
           | _ \<Rightarrow>
               (Inl (ValueError ''The keywords must be a dictionary, corresponding to keyword argument to func''),
                st))
      | _ \<Rightarrow> (Inl (ValueError ''The argument x must be a Numpy array''), st))"

section \<open>Observations on traces\<close>

fun is_call :: "('a, 'r, 'e) event \<Rightarrow> bool" where
  "is_call (Call b c) = True"
| "is_call _ = False"

fun is_copy :: "('a, 'r, 'e) event \<Rightarrow> bool" where
  "is_copy (CopyTo d s) = True"
| "is_copy _ = False"

definition calls_in :: "('a, 'r, 'e) event list \<Rightarrow> nat" where
  "calls_in evs = length (filter is_call evs)"

definition copies_in :: "('a, 'r, 'e) event list \<Rightarrow> nat" where
  "copies_in evs = length (filter is_copy evs)"

fun sees :: "'a list \<Rightarrow> ('a, 'r, 'e) event \<Rightarrow> bool" where
  "sees xs (Call b c) = (c = xs)"
| "sees xs _ = True"

fun harness_event :: "nat \<Rightarrow> nat \<Rightarrow> ('a, 'r, 'e) event \<Rightarrow> bool" where
  "harness_event buf x (Call b c) = (b = buf)"
| "harness_event buf x (CopyTo d s) = (d = buf \<and> s = x)"
| "harness_event buf x (Alloc b) = (b = buf)"
| "harness_event buf x _ = True"

fun call_or_return :: "('a, 'r, 'e) event \<Rightarrow> bool" where
  "call_or_return (Call b c) = True"
| "call_or_return (Return r) = True"
| "call_or_return _ = False"

fun measured :: "'w Timer \<Rightarrow> ('a, 'r, 'e) event \<Rightarrow> real" where
  "measured timer (Delta t0 t1) = time_delta timer t0 t1"
| "measured timer _ = 0"

definition total :: "'w Timer \<Rightarrow> ('a, 'r, 'e) event list \<Rightarrow> real" where
  "total timer evs = sum_list (map (measured timer) evs)"

fun returned :: "('a, 'r, 'e) event \<Rightarrow> 'r list" where
  "returned (Return r) = [r]"
| "returned _ = []"

definition results_in :: "('a, 'r, 'e) event list \<Rightarrow> 'r list" where
  "results_in evs = concat (map returned evs)"

definition never_raises :: "('k, 'a, 'r, 'e, 'w) func \<Rightarrow> bool" where
  "never_raises func = (\<forall>kwargs contents w. \<exists>r contents' w'. func kwargs contents w = (Inr r, contents', w'))"

definition bracket :: "('a, 'r, 'e) event list \<Rightarrow> bool" where
  "bracket evs =
     (\<exists>t0 t1 calls. evs = Now t0 # calls @ [Now t1, Delta t0 t1] \<and> list_all call_or_return calls)"

definition assign :: "'w Timer \<Rightarrow> int \<Rightarrow> nat \<times> ('a, 'r, 'e) event list \<Rightarrow> real list \<Rightarrow> real list" where
  "assign timer actual_batch_size p times_list =
     times_list[fst p := total timer (snd p) / of_int actual_batch_size]"

definition bracketed :: "'w Timer \<Rightarrow> int \<Rightarrow> ('a, 'r, 'e) event list \<Rightarrow> real \<Rightarrow> bool" where
  "bracketed timer actual_batch_size seg m =
     (\<exists>t0 t1 calls. seg = Now t0 # calls @ [Now t1, Delta t0 t1] \<and>
        list_all call_or_return calls \<and> calls_in calls = nat actual_batch_size \<and>
        m = time_delta timer t0 t1 / of_int actual_batch_size)"

section \<open>Example inputs\<close>

text \<open>
  A clock that reads the world, which is the time in seconds; an interpreter where only
  the module \<^verbatim>\<open>time\<close> imports; a function that negates its argument in place and
  takes half a second; a function that always raises; a process with one array.
\<close>

definition clock_module :: "real pymodule" where
  "clock_module =
     \<lparr>itime = (\<lambda>w. (w, w)), itime_delta_in_seconds = (\<lambda>t0 t1. t1 - t0),
      default_timer = (\<lambda>w. (w, w)), time = (\<lambda>w. (w, w))\<rparr>"

definition wall_timer :: "real Timer" where
  "wall_timer =
     \<lparr>name = ''time'', module = clock_module, now = (\<lambda>w. (w, w)),
      time_delta = (\<lambda>t0 t1. t1 - t0)\<rparr>"

definition example_env :: "(int, real) environment" where
  "example_env =
     \<lparr>import_module = (\<lambda>s. if s = ''time'' then Some clock_module else None),
      uninit_float = (\<lambda>i. - 1), uninit_elem = (\<lambda>i. 7)\<rparr>"

definition negate_in_place :: "(unit, int, int list, string, real) func" where
  "negate_in_place kwargs contents w =
     (Inr (map uminus contents), map uminus contents, w + 1 / 2)"

definition failing_func :: "(unit, int, int list, string, real) func" where
  "failing_func kwargs contents w = (Inl ''domain error'', contents, w)"

definition example_state :: "(int, int list, string, real) state" where
  "example_state = \<lparr>heap = [[1, 2, 3]], gc_enabled = True, world = 0, trace = []\<rparr>"

lemmas prim_defs = empty_like_def copyto_def timer_now_def timer_time_delta_def call_def
  gc_collect_def gc_disable_def gc_enable_def

lemmas example_defs = clock_module_def wall_timer_def example_env_def negate_in_place_def
  failing_func_def example_state_def

section \<open>Argument checks\<close>

text \<open>
  C5. When \<open>x\<close> is not a Numpy array or \<open>kwargs\<close> is not a dictionary, \<open>time_func\<close>
  raises \<open>ValueError\<close> (the spec's InvalidArgument) and the state of the process is the
  one it was called in: the trace is unchanged, so no buffer was allocated, the clock was
  not read and the function was not called.
\<close>

theorem time_func_invalid_argument:
  "(\<forall>a. x \<noteq> NDArray a) \<or> (\<forall>k. kwargs \<noteq> Dict k) \<Longrightarrow>
   \<exists>msg. time_func env func x kwargs timer batch_size repetitions refresh_buffer st
          = (Inl (ValueError msg), st)"
  by (cases x; cases kwargs) (simp_all add: time_func_def)

theorem time_func_invalid_argument_witness:
  "(\<exists>msg. time_func example_env negate_in_place Other (Dict ()) (Some wall_timer) 16 24 True
            example_state = (Inl (ValueError msg), example_state)) \<and>
   (\<exists>msg. time_func example_env negate_in_place (NDArray 0) Other (Some wall_timer) 16 24 True
            example_state = (Inl (ValueError msg), example_state))"
  using time_func_invalid_argument [of Other "Dict ()" example_env negate_in_place
      "Some wall_timer" 16 24 True example_state]
    time_func_invalid_argument [of "NDArray 0" Other example_env negate_in_place
      "Some wall_timer" 16 24 True example_state]
  by simp

section \<open>Batch-size calibration\<close>

lemma guard_positive:
  fixes time_tot :: real and batch_size :: int
  assumes "1 \<le> batch_size" and "time_tot * of_int batch_size > 5"
  shows "0 < time_tot"
proof (rule ccontr)
  assume "\<not> 0 < time_tot"
  then have "time_tot \<le> 0" by simp
  moreover have "(0::real) \<le> of_int batch_size" using assms(1) by simp
  ultimately have "time_tot * of_int batch_size \<le> 0"
    by (rule mult_nonpos_nonneg)
  with assms(2) show False by simp
qed

lemma py_int_nonneg: "0 \<le> v \<Longrightarrow> 0 \<le> py_int v"
  by (simp add: py_int_def)

lemma calibration_at_least_one:
  assumes "1 \<le> batch_size"
  shows "\<exists>n. determine_batch_size time_tot batch_size = (Inr n :: 'e error + int) \<and> 1 \<le> n"
proof (cases "time_tot * of_int batch_size > 5")
  case True
  then have pos: "0 < time_tot" using assms by (rule guard_positive [rotated])
  then have "0 \<le> py_int (5 / time_tot)" by (intro py_int_nonneg) simp
  with True pos show ?thesis by (simp add: determine_batch_size_def)
next
  case False
  with assms show ?thesis by (simp add: determine_batch_size_def)
qed

text \<open>
  C9. For a requested batch size of at least 1, the guard \<open>time_tot * batch_size > 5\<close>
  implies \<open>time_tot > 0\<close>; so the calibration never takes its division-by-zero branch,
  also for a warm-up that measured zero seconds, and the batch size it hands to the
  measurement loop is at least 1.
\<close>

theorem determine_batch_size_safe:
  assumes "1 \<le> batch_size"
  shows "(time_tot * of_int batch_size > 5 \<longrightarrow> 0 < time_tot) \<and>
   (\<exists>n. determine_batch_size time_tot batch_size = Inr n \<and> 1 \<le> n)"
  using assms guard_positive [of batch_size time_tot] calibration_at_least_one [of batch_size time_tot]
  by blast

theorem determine_batch_size_safe_witness:
  "(1 / 2 * of_int 20 > (5::real) \<and> (0::real) < 1 / 2) \<and>
   (\<exists>n. determine_batch_size (1 / 2) 20 = Inr n \<and> 1 \<le> n) \<and>
   (\<exists>n. determine_batch_size 0 16 = Inr n \<and> 1 \<le> n)"
  using determine_batch_size_safe [of 20 "1 / 2"] determine_batch_size_safe [of 16 0]
  by simp

section \<open>Timer resolution: the first module that imports\<close>

lemma find_module_none:
  "(\<forall>m \<in> set time_modules. imp m = None) \<Longrightarrow> find_module imp time_modules = None"
  by (induction time_modules) simp_all

lemma find_module_first:
  "(\<forall>p \<in> set pre. imp p = None) \<Longrightarrow> imp m = Some tm \<Longrightarrow>
   find_module imp (pre @ m # post) = Some (m, tm)"
  by (induction pre) simp_all

lemma get_timer_name:
  "find_module imp time_modules = Some (m, tm) \<Longrightarrow>
   get_timer imp time_modules = Inr t \<Longrightarrow> name t = m \<and> module t = tm"
  by (auto simp: get_timer_def split: if_splits)

text \<open>
  C7. \<open>get_timer\<close> goes through the candidate names in the order given. When none of
  them imports it fails (with \<open>UnboundLocalError\<close>, the spec's UnavailableClock) and
  produces no timer. When \<open>m\<close> is the first name that imports, \<open>m\<close> and its module are
  the ones selected: no timer of another name is ever returned, and for each of the three
  clock sources the function knows the timer returned is the one named \<open>m\<close>.
\<close>

theorem get_timer_first_available:
  fixes imp :: "string \<Rightarrow> 'w pymodule option"
  shows
  "((\<forall>m \<in> set time_modules. imp m = None) \<longrightarrow>
      (get_timer imp time_modules :: 'e error + 'w Timer)
        = Inl (UnboundLocalError ''timer_name'')) \<and>
   (time_modules = pre @ m # post \<and> (\<forall>p \<in> set pre. imp p = None) \<and> imp m = Some tm \<longrightarrow>
      find_module imp time_modules = Some (m, tm) \<and>
      (m \<in> {''itimer'', ''timeit'', ''time''} \<longrightarrow>
         (\<exists>t. (get_timer imp time_modules :: 'e error + 'w Timer) = Inr t \<and>
              name t = m \<and> module t = tm)) \<and>
      (\<forall>t. (get_timer imp time_modules :: 'e error + 'w Timer) = Inr t \<longrightarrow>
           name t = m \<and> module t = tm))"
proof (intro conjI impI allI)
  assume "\<forall>m \<in> set time_modules. imp m = None"
  then show "(get_timer imp time_modules :: 'e error + 'w Timer)
      = Inl (UnboundLocalError ''timer_name'')"
    by (simp add: get_timer_def find_module_none)
next
  assume a: "time_modules = pre @ m # post \<and> (\<forall>p \<in> set pre. imp p = None) \<and> imp m = Some tm"
  then show found: "find_module imp time_modules = Some (m, tm)"
    by (simp add: find_module_first)
  {
    assume "m \<in> {''itimer'', ''timeit'', ''time''}"
    with found show "\<exists>t. (get_timer imp time_modules :: 'e error + 'w Timer) = Inr t \<and>
        name t = m \<and> module t = tm"
      by (auto simp: get_timer_def)
  }
  {
    fix t assume "(get_timer imp time_modules :: 'e error + 'w Timer) = Inr t"
    with found show "name t = m" and "module t = tm"
      using get_timer_name by blast+
  }
qed

theorem get_timer_first_available_witness:
  "(get_timer (import_module example_env) [''itimer''] :: unit error + real Timer)
     = Inl (UnboundLocalError ''timer_name'') \<and>
   find_module (import_module example_env) default_time_modules = Some (''time'', clock_module) \<and>
   (\<exists>t. (get_timer (import_module example_env) default_time_modules :: unit error + real Timer)
          = Inr t \<and> name t = ''time'' \<and> module t = clock_module)"
  using get_timer_first_available [where 'e = unit, of "[''itimer'']" "import_module example_env"]
    get_timer_first_available [where 'e = unit, of default_time_modules
      "import_module example_env" "[''itimer'', ''timeit'']" "''time''" "[]" clock_module]
  by (simp add: example_env_def default_time_modules_def)

section \<open>The effect of each part of the harness on the state\<close>

lemma calls_in_simps [simp]:
  "calls_in [] = 0"
  "calls_in (e # evs) = (if is_call e then 1 else 0) + calls_in evs"
  "calls_in (evs @ evs') = calls_in evs + calls_in evs'"
  by (simp_all add: calls_in_def)

lemma copies_in_simps [simp]:
  "copies_in [] = 0"
  "copies_in (e # evs) = (if is_copy e then 1 else 0) + copies_in evs"
  "copies_in (evs @ evs') = copies_in evs + copies_in evs'"
  by (simp_all add: copies_in_def)

lemma total_simps [simp]:
  "total timer [] = 0"
  "total timer (e # evs) = measured timer e + total timer evs"
  "total timer (evs @ evs') = total timer evs + total timer evs'"
  by (simp_all add: total_def)

lemma results_in_simps [simp]:
  "results_in [] = []"
  "results_in (e # evs) = returned e @ results_in evs"
  "results_in (evs @ evs') = results_in evs @ results_in evs'"
  by (simp_all add: results_in_def)

lemma copyto_simps [simp]:
  "trace (copyto dst src st) = trace st @ [CopyTo dst src]"
  "heap (copyto dst src st) = (heap st)[dst := heap st ! src]"
  "gc_enabled (copyto dst src st) = gc_enabled st"
  by (simp_all add: copyto_def)

lemma timer_now_effect:
  "timer_now timer st = (t, st') \<Longrightarrow>
   trace st' = trace st @ [Now t] \<and> heap st' = heap st \<and> gc_enabled st' = gc_enabled st"
  by (auto simp: timer_now_def split: prod.splits)

lemma timer_time_delta_effect:
  "timer_time_delta timer t0 t1 st = (d, st') \<Longrightarrow>
   d = time_delta timer t0 t1 \<and> trace st' = trace st @ [Delta t0 t1] \<and>
   heap st' = heap st \<and> gc_enabled st' = gc_enabled st"
  by (auto simp: timer_time_delta_def)

lemma call_effect:
  "call func kwargs buf st = (out, st') \<Longrightarrow>
   trace st' = trace st @ [Call buf (heap st ! buf), (case out of Inl e \<Rightarrow> Raise e | Inr r \<Rightarrow> Return r)] \<and>
   length (heap st') = length (heap st) \<and> (\<forall>x. x \<noteq> buf \<longrightarrow> heap st' ! x = heap st ! x) \<and>
   gc_enabled st' = gc_enabled st"
  by (auto simp: call_def split: prod.splits)

lemma call_never_raises:
  "never_raises func \<Longrightarrow> \<exists>r st'. call func kwargs buf st = (Inr r, st')"
  unfolding never_raises_def call_def
  by (metis (mono_tags, lifting) case_prod_conv)

text \<open>The calls-only loop.\<close>

lemma batch_calls_effect:
  "batch_calls func kwargs buf n res st = (out, st') \<Longrightarrow>
   \<exists>evs. trace st' = trace st @ evs \<and> list_all (harness_event buf x) evs \<and>
         copies_in evs = 0 \<and> total timer evs = 0 \<and>
         length (heap st') = length (heap st) \<and> (x \<noteq> buf \<longrightarrow> heap st' ! x = heap st ! x) \<and>
         gc_enabled st' = gc_enabled st \<and>
         (\<forall>res'. out = Inr res' \<longrightarrow>
            calls_in evs = n \<and> list_all call_or_return evs \<and> res' = last (res # results_in evs))"
proof (induction n arbitrary: res st)
  case 0
  then show ?case by auto
next
  case (Suc n)
  obtain o1 st1 where c: "call func kwargs buf st = (o1, st1)" by fastforce
  note ce = call_effect [OF c]
  show ?case
  proof (cases o1)
    case (Inl e)
    with Suc.prems c ce show ?thesis by auto
  next
    case (Inr r)
    with Suc.prems c have "batch_calls func kwargs buf n r st1 = (out, st')" by simp
    from Suc.IH [OF this] obtain evs where
      evs: "trace st' = trace st1 @ evs" "list_all (harness_event buf x) evs"
        "copies_in evs = 0" "total timer evs = 0"
        "length (heap st') = length (heap st1)" "x \<noteq> buf \<longrightarrow> heap st' ! x = heap st1 ! x"
        "gc_enabled st' = gc_enabled st1"
        "\<forall>res'. out = Inr res' \<longrightarrow>
            calls_in evs = n \<and> list_all call_or_return evs \<and> res' = last (r # results_in evs)"
      by blast
    let ?evs = "Call buf (heap st ! buf) # Return r # evs"
    have "trace st' = trace st @ ?evs" using evs(1) ce Inr by simp
    moreover have "list_all (harness_event buf x) ?evs" using evs(2) by simp
    moreover have "copies_in ?evs = 0" "total timer ?evs = 0" using evs(3,4) by simp_all
    moreover have "length (heap st') = length (heap st)" "x \<noteq> buf \<longrightarrow> heap st' ! x = heap st ! x"
      "gc_enabled st' = gc_enabled st" using evs(5,6,7) ce by simp_all
    moreover have "\<forall>res'. out = Inr res' \<longrightarrow>
        calls_in ?evs = Suc n \<and> list_all call_or_return ?evs \<and> res' = last (res # results_in ?evs)"
      using evs(8) by simp
    ultimately show ?thesis by blast
  qed
qed

text \<open>The refreshing loop.\<close>

lemma batch_refresh_effect:
  "batch_refresh func kwargs timer buf x n (time_tot, res) st = (out, st') \<Longrightarrow>
   \<exists>evs. trace st' = trace st @ evs \<and> list_all (harness_event buf x) evs \<and>
         length (heap st') = length (heap st) \<and> (x \<noteq> buf \<longrightarrow> heap st' ! x = heap st ! x) \<and>
         gc_enabled st' = gc_enabled st \<and>
         (x \<noteq> buf \<and> buf < length (heap st) \<longrightarrow> list_all (sees (heap st ! x)) evs) \<and>
         (\<forall>time_tot' res'. out = Inr (time_tot', res') \<longrightarrow>
            calls_in evs = n \<and> copies_in evs = n \<and> time_tot' = time_tot + total timer evs \<and>
            res' = last (res # results_in evs))"
proof (induction n arbitrary: time_tot res st)
  case 0
  then show ?case by auto
next
  case (Suc n)
  let ?c = "heap (copyto buf x st) ! buf"
  obtain t0 st2 where a: "timer_now timer (copyto buf x st) = (t0, st2)" by fastforce
  obtain o3 st3 where c: "call func kwargs buf st2 = (o3, st3)" by fastforce
  note ae = timer_now_effect [OF a]
  note ce = call_effect [OF c]
  have seen: "x \<noteq> buf \<and> buf < length (heap st) \<longrightarrow> ?c = heap st ! x" by simp
  show ?case
  proof (cases o3)
    case (Inl e)
    with Suc.prems a c have "out = Inl (Raised e)" "st' = st3" by simp_all
    with ae ce Inl seen show ?thesis by auto
  next
    case (Inr r)
    obtain t1 st4 where b: "timer_now timer st3 = (t1, st4)" by fastforce
    obtain d st5 where d: "timer_time_delta timer t0 t1 st4 = (d, st5)" by fastforce
    note be = timer_now_effect [OF b]
    note de = timer_time_delta_effect [OF d]
    from Suc.prems a c Inr b d
    have "batch_refresh func kwargs timer buf x n (time_tot + d, r) st5 = (out, st')" by simp
    from Suc.IH [OF this] obtain evs where
      evs: "trace st' = trace st5 @ evs" "list_all (harness_event buf x) evs"
        "length (heap st') = length (heap st5)" "x \<noteq> buf \<longrightarrow> heap st' ! x = heap st5 ! x"
        "gc_enabled st' = gc_enabled st5"
        "x \<noteq> buf \<and> buf < length (heap st5) \<longrightarrow> list_all (sees (heap st5 ! x)) evs"
        "\<forall>time_tot' res'. out = Inr (time_tot', res') \<longrightarrow>
            calls_in evs = n \<and> copies_in evs = n \<and> time_tot' = time_tot + d + total timer evs \<and>
            res' = last (r # results_in evs)"
      by blast
    let ?evs = "CopyTo buf x # Now t0 # Call buf ?c # Return r # Now t1 # Delta t0 t1 # evs"
    have len: "length (heap st5) = length (heap st)" using ae ce be de by simp
    have keep: "x \<noteq> buf \<longrightarrow> heap st5 ! x = heap st ! x" using ae ce be de by simp
    have "trace st' = trace st @ ?evs" using evs(1) ae ce be de Inr by simp
    moreover have "list_all (harness_event buf x) ?evs" using evs(2) by simp
    moreover have "length (heap st') = length (heap st)" using evs(3) len by simp
    moreover have "x \<noteq> buf \<longrightarrow> heap st' ! x = heap st ! x" using evs(4) keep by simp
    moreover have "gc_enabled st' = gc_enabled st" using evs(5) ae ce be de by simp
    moreover have "x \<noteq> buf \<and> buf < length (heap st) \<longrightarrow> list_all (sees (heap st ! x)) ?evs"
      using evs(6) len keep seen by simp
    moreover have "\<forall>time_tot' res'. out = Inr (time_tot', res') \<longrightarrow>
        calls_in ?evs = Suc n \<and> copies_in ?evs = Suc n \<and>
        time_tot' = time_tot + total timer ?evs \<and> res' = last (res # results_in ?evs)"
      using evs(7) de by auto
    ultimately show ?thesis by blast
  qed
qed

text \<open>The body of the outer loop.\<close>

lemma batch_effect:
  "batch func kwargs timer buf x refresh_buffer actual_batch_size res st = (out, st') \<Longrightarrow>
   \<exists>evs. trace st' = trace st @ evs \<and> list_all (harness_event buf x) evs \<and>
         length (heap st') = length (heap st) \<and> (x \<noteq> buf \<longrightarrow> heap st' ! x = heap st ! x) \<and>
         gc_enabled st' = gc_enabled st \<and>
         (refresh_buffer \<and> x \<noteq> buf \<and> buf < length (heap st) \<longrightarrow>
            list_all (sees (heap st ! x)) evs) \<and>
         (\<not> refresh_buffer \<longrightarrow> copies_in evs = 0) \<and>
         (\<forall>time_tot res'. out = Inr (time_tot, res') \<longrightarrow>
            calls_in evs = nat actual_batch_size \<and> time_tot = total timer evs \<and>
            res' = last (res # results_in evs) \<and> (\<not> refresh_buffer \<longrightarrow> bracket evs))"
proof (cases refresh_buffer)
  case True
  assume "batch func kwargs timer buf x refresh_buffer actual_batch_size res st = (out, st')"
  with True have "batch_refresh func kwargs timer buf x (nat actual_batch_size) (0, res) st = (out, st')"
    by (simp add: batch_def)
  from batch_refresh_effect [OF this] True show ?thesis by auto
next
  case False
  assume run: "batch func kwargs timer buf x refresh_buffer actual_batch_size res st = (out, st')"
  obtain t0 st1 where a: "timer_now timer st = (t0, st1)" by fastforce
  obtain o2 st2 where c: "batch_calls func kwargs buf (nat actual_batch_size) res st1 = (o2, st2)"
    by fastforce
  note ae = timer_now_effect [OF a]
  from batch_calls_effect [OF c, of x timer] obtain evs where
    evs: "trace st2 = trace st1 @ evs" "list_all (harness_event buf x) evs"
      "copies_in evs = 0" "total timer evs = 0"
      "length (heap st2) = length (heap st1)" "x \<noteq> buf \<longrightarrow> heap st2 ! x = heap st1 ! x"
      "gc_enabled st2 = gc_enabled st1"
      "\<forall>res'. o2 = Inr res' \<longrightarrow>
          calls_in evs = nat actual_batch_size \<and> list_all call_or_return evs \<and>
          res' = last (res # results_in evs)"
    by blast
  show ?thesis
  proof (cases o2)
    case (Inl e)
    with run False a c have "out = Inl e" "st' = st2" by (simp_all add: batch_def)
    with ae evs False show ?thesis by auto
  next
    case (Inr r)
    obtain t1 st3 where b: "timer_now timer st2 = (t1, st3)" by fastforce
    obtain d st4 where d: "timer_time_delta timer t0 t1 st3 = (d, st4)" by fastforce
    note be = timer_now_effect [OF b]
    note de = timer_time_delta_effect [OF d]
    from run False a c Inr b d have out: "out = Inr (d, r)" "st' = st4" by (simp_all add: batch_def)
    let ?evs = "Now t0 # evs @ [Now t1, Delta t0 t1]"
    have "trace st' = trace st @ ?evs" using out ae be de evs(1) by simp
    moreover have "list_all (harness_event buf x) ?evs" using evs(2) by simp
    moreover have "length (heap st') = length (heap st)" "x \<noteq> buf \<longrightarrow> heap st' ! x = heap st ! x"
      "gc_enabled st' = gc_enabled st" using out ae be de evs(5,6,7) by simp_all
    moreover have "copies_in ?evs = 0" using evs(3) by simp
    moreover have "calls_in ?evs = nat actual_batch_size" "d = total timer ?evs"
      "r = last (res # results_in ?evs)" using evs(4,8) Inr de by simp_all
    moreover have "bracket ?evs" using evs(8) Inr unfolding bracket_def by blast
    ultimately show ?thesis using out False by auto
  qed
qed

text \<open>The outer loop, whatever its outcome.\<close>

lemma measurements_effect:
  "measurements func kwargs timer buf x refresh_buffer actual_batch_size todo (times_list, res) st
     = (out, st') \<Longrightarrow>
   \<exists>evs. trace st' = trace st @ evs \<and> list_all (harness_event buf x) evs \<and>
         length (heap st') = length (heap st) \<and> (x \<noteq> buf \<longrightarrow> heap st' ! x = heap st ! x) \<and>
         gc_enabled st' = gc_enabled st \<and>
         (refresh_buffer \<and> x \<noteq> buf \<and> buf < length (heap st) \<longrightarrow>
            list_all (sees (heap st ! x)) evs) \<and>
         (\<not> refresh_buffer \<longrightarrow> copies_in evs = 0)"
proof (induction todo arbitrary: times_list res st)
  case Nil
  then show ?case by auto
next
  case (Cons i rest)
  obtain o1 st1 where b:
    "batch func kwargs timer buf x refresh_buffer actual_batch_size res st = (o1, st1)"
    by fastforce
  from batch_effect [OF b] obtain evs where
    evs: "trace st1 = trace st @ evs" "list_all (harness_event buf x) evs"
      "length (heap st1) = length (heap st)" "x \<noteq> buf \<longrightarrow> heap st1 ! x = heap st ! x"
      "gc_enabled st1 = gc_enabled st"
      "refresh_buffer \<and> x \<noteq> buf \<and> buf < length (heap st) \<longrightarrow> list_all (sees (heap st ! x)) evs"
      "\<not> refresh_buffer \<longrightarrow> copies_in evs = 0"
    by blast
  show ?case
  proof (cases "\<exists>time_tot r. o1 = Inr (time_tot, r) \<and> actual_batch_size \<noteq> 0")
    case False
    with Cons.prems b have "st' = st1" by (auto split: sum.splits if_splits)
    with evs show ?thesis by auto
  next
    case True
    then obtain time_tot r where o1: "o1 = Inr (time_tot, r)" "actual_batch_size \<noteq> 0" by blast
    with Cons.prems b have
      "measurements func kwargs timer buf x refresh_buffer actual_batch_size rest
         (times_list[i := time_tot / of_int actual_batch_size], r) st1 = (out, st')"
      by simp
    from Cons.IH [OF this] obtain evs' where
      evs': "trace st' = trace st1 @ evs'" "list_all (harness_event buf x) evs'"
        "length (heap st') = length (heap st1)" "x \<noteq> buf \<longrightarrow> heap st' ! x = heap st1 ! x"
        "gc_enabled st' = gc_enabled st1"
        "refresh_buffer \<and> x \<noteq> buf \<and> buf < length (heap st1) \<longrightarrow>
           list_all (sees (heap st1 ! x)) evs'"
        "\<not> refresh_buffer \<longrightarrow> copies_in evs' = 0"
      by blast
    have "trace st' = trace st @ (evs @ evs')" using evs(1) evs'(1) by simp
    moreover have "list_all (harness_event buf x) (evs @ evs')" using evs(2) evs'(2) by simp
    moreover have "length (heap st') = length (heap st)" "x \<noteq> buf \<longrightarrow> heap st' ! x = heap st ! x"
      "gc_enabled st' = gc_enabled st" using evs(3,4,5) evs'(3,4,5) by simp_all
    moreover have "refresh_buffer \<and> x \<noteq> buf \<and> buf < length (heap st) \<longrightarrow>
        list_all (sees (heap st ! x)) (evs @ evs')"
      using evs(3,4,6) evs'(6) by simp
    moreover have "\<not> refresh_buffer \<longrightarrow> copies_in (evs @ evs') = 0" using evs(7) evs'(7) by simp
    ultimately show ?thesis by blast
  qed
qed

text \<open>
  The outer loop when it completes: the new events split into one segment for each index,
  and each index was assigned the mean of its segment.
\<close>

lemma measurements_segments:
  "measurements func kwargs timer buf x refresh_buffer actual_batch_size todo (times_list, res) st
     = (Inr (times_list', res'), st') \<Longrightarrow>
   \<exists>segs. trace st' = trace st @ concat segs \<and> length segs = length todo \<and>
          (todo \<noteq> [] \<longrightarrow> actual_batch_size \<noteq> 0) \<and>
          times_list' = fold (assign timer actual_batch_size) (zip todo segs) times_list \<and>
          (\<forall>seg \<in> set segs. calls_in seg = nat actual_batch_size \<and>
             (\<not> refresh_buffer \<longrightarrow> bracket seg)) \<and>
          res' = last (res # results_in (concat segs))"
proof (induction todo arbitrary: times_list res st)
  case Nil
  then have "trace st' = trace st @ concat []" "times_list' = times_list" "res' = res" by simp_all
  then show ?case by (intro exI [of _ "[]"]) simp
next
  case (Cons i rest)
  obtain o1 st1 where b:
    "batch func kwargs timer buf x refresh_buffer actual_batch_size res st = (o1, st1)"
    by fastforce
  with Cons.prems obtain time_tot r where o1: "o1 = Inr (time_tot, r)" "actual_batch_size \<noteq> 0"
    and rec: "measurements func kwargs timer buf x refresh_buffer actual_batch_size rest
         (times_list[i := time_tot / of_int actual_batch_size], r) st1
           = (Inr (times_list', res'), st')"
    by (auto split: sum.splits if_splits)
  from batch_effect [OF b] o1 obtain seg where
    seg: "trace st1 = trace st @ seg" "calls_in seg = nat actual_batch_size"
      "time_tot = total timer seg" "r = last (res # results_in seg)"
      "\<not> refresh_buffer \<longrightarrow> bracket seg"
    by blast
  from Cons.IH [OF rec] obtain segs where
    segs: "trace st' = trace st1 @ concat segs" "length segs = length rest"
      "times_list' = fold (assign timer actual_batch_size) (zip rest segs)
         (times_list[i := time_tot / of_int actual_batch_size])"
      "\<forall>s \<in> set segs. calls_in s = nat actual_batch_size \<and> (\<not> refresh_buffer \<longrightarrow> bracket s)"
      "res' = last (r # results_in (concat segs))"
    by blast
  have "trace st' = trace st @ concat (seg # segs)" using seg(1) segs(1) by simp
  moreover have "length (seg # segs) = length (i # rest)" using segs(2) by simp
  moreover have "times_list' = fold (assign timer actual_batch_size) (zip (i # rest) (seg # segs)) times_list"
    using segs(3) seg(3) by (simp add: assign_def)
  moreover have "\<forall>s \<in> set (seg # segs). calls_in s = nat actual_batch_size \<and>
      (\<not> refresh_buffer \<longrightarrow> bracket s)"
    using seg(2,5) segs(4) by simp
  moreover have "res' = last (res # results_in (concat (seg # segs)))"
    using seg(4) segs(5) by simp
  ultimately show ?case using o1(2) by blast
qed

lemma fold_assign_upt:
  "length times_list = n \<Longrightarrow> k + length segs = n \<Longrightarrow>
   fold (assign timer actual_batch_size) (zip [k..<n] segs) times_list =
     take k times_list @ map (\<lambda>seg. total timer seg / of_int actual_batch_size) segs"
proof (induction segs arbitrary: k times_list)
  case Nil
  then show ?case by simp
next
  case (Cons seg segs)
  then have k: "k < n" and up: "[k..<n] = k # [Suc k..<n]" by (simp_all add: upt_conv_Cons)
  let ?m = "total timer seg / of_int actual_batch_size"
  have "fold (assign timer actual_batch_size) (zip [k..<n] (seg # segs)) times_list =
      fold (assign timer actual_batch_size) (zip [Suc k..<n] segs) (times_list[k := ?m])"
    by (simp add: up assign_def)
  also have "\<dots> = take (Suc k) (times_list[k := ?m]) @
      map (\<lambda>seg. total timer seg / of_int actual_batch_size) segs"
    using Cons.prems by (intro Cons.IH) simp_all
  also have "take (Suc k) (times_list[k := ?m]) = take k times_list @ [?m]"
    using k Cons.prems(1) by (simp add: take_Suc_conv_app_nth)
  finally show ?case by simp
qed

text \<open>The warm-up.\<close>

lemma warm_up_effect:
  "warm_up func kwargs timer buf st = (out, st') \<Longrightarrow>
   length (heap st') = length (heap st) \<and> (\<forall>x. x \<noteq> buf \<longrightarrow> heap st' ! x = heap st ! x) \<and>
   \<not> gc_enabled st' \<and>
   (\<exists>t0. (\<forall>e. out = Inl e \<longrightarrow>
            (\<exists>e'. e = Raised e' \<and>
               trace st' = trace st @
                 [GcCollect, GcDisable, Now t0, Call buf (heap st ! buf), Raise e'])) \<and>
         (\<forall>time_tot res. out = Inr (time_tot, res) \<longrightarrow>
            (\<exists>t1. time_tot = time_delta timer t0 t1 \<and>
               trace st' = trace st @
                 [GcCollect, GcDisable, Now t0, Call buf (heap st ! buf), Return res,
                  Now t1, Delta t0 t1])))"
proof -
  assume run: "warm_up func kwargs timer buf st = (out, st')"
  let ?st0 = "gc_disable (gc_collect st)"
  have st0: "trace ?st0 = trace st @ [GcCollect, GcDisable]" "heap ?st0 = heap st"
    "\<not> gc_enabled ?st0"
    by (simp_all add: gc_disable_def gc_collect_def)
  obtain t0 st1 where a: "timer_now timer ?st0 = (t0, st1)" by fastforce
  obtain o2 st2 where c: "call func kwargs buf st1 = (o2, st2)" by fastforce
  note ae = timer_now_effect [OF a]
  note ce = call_effect [OF c]
  show ?thesis
  proof (cases o2)
    case (Inl e)
    with run a c have "out = Inl (Raised e)" "st' = st2" by (simp_all add: warm_up_def)
    with st0 ae ce Inl show ?thesis by auto
  next
    case (Inr r)
    obtain t1 st3 where b: "timer_now timer st2 = (t1, st3)" by fastforce
    obtain d st4 where d: "timer_time_delta timer t0 t1 st3 = (d, st4)" by fastforce
    note be = timer_now_effect [OF b]
    note de = timer_time_delta_effect [OF d]
    from run a c Inr b d have "out = Inr (d, r)" "st' = st4" by (simp_all add: warm_up_def)
    with st0 ae ce be de Inr show ?thesis by auto
  qed
qed

text \<open>A function that never raises: every loop completes.\<close>

lemma batch_calls_returns:
  "never_raises func \<Longrightarrow> \<exists>r st'. batch_calls func kwargs buf n res st = (Inr r, st')"
proof (induction n arbitrary: res st)
  case 0
  then show ?case by simp
next
  case (Suc n)
  from call_never_raises [OF Suc.prems] obtain r st1
    where "call func kwargs buf st = (Inr r, st1)" by blast
  with Suc.IH [OF Suc.prems, of r st1] show ?case by simp
qed

lemma batch_refresh_returns:
  "never_raises func \<Longrightarrow>
   \<exists>r st'. batch_refresh func kwargs timer buf x n (time_tot, res) st = (Inr r, st')"
proof (induction n arbitrary: time_tot res st)
  case 0
  then show ?case by simp
next
  case (Suc n)
  obtain t0 st2 where a: "timer_now timer (copyto buf x st) = (t0, st2)" by fastforce
  from call_never_raises [OF Suc.prems] obtain r st3
    where c: "call func kwargs buf st2 = (Inr r, st3)" by blast
  obtain t1 st4 where b: "timer_now timer st3 = (t1, st4)" by fastforce
  obtain d st5 where d: "timer_time_delta timer t0 t1 st4 = (d, st5)" by fastforce
  from Suc.IH [OF Suc.prems, of "time_tot + d" r st5] a c b d show ?case by simp
qed

lemma batch_returns:
  assumes "never_raises func"
  shows "\<exists>r st'. batch func kwargs timer buf x refresh_buffer actual_batch_size res st = (Inr r, st')"
proof (cases refresh_buffer)
  case True
  with batch_refresh_returns [OF assms] show ?thesis by (simp add: batch_def)
next
  case False
  obtain t0 st1 where a: "timer_now timer st = (t0, st1)" by fastforce
  from batch_calls_returns [OF assms] obtain r st2
    where c: "batch_calls func kwargs buf (nat actual_batch_size) res st1 = (Inr r, st2)" by blast
  obtain t1 st3 where b: "timer_now timer st2 = (t1, st3)" by fastforce
  obtain d st4 where d: "timer_time_delta timer t0 t1 st3 = (d, st4)" by fastforce
  from False a c b d show ?thesis by (simp add: batch_def)
qed

lemma measurements_returns:
  "never_raises func \<Longrightarrow> actual_batch_size \<noteq> 0 \<Longrightarrow>
   \<exists>r st'. measurements func kwargs timer buf x refresh_buffer actual_batch_size todo
             (times_list, res) st = (Inr r, st')"
proof (induction todo arbitrary: times_list res st)
  case Nil
  then show ?case by simp
next
  case (Cons i rest)
  from batch_returns [OF Cons.prems(1)] obtain time_tot r st1 where
    "batch func kwargs timer buf x refresh_buffer actual_batch_size res st = (Inr (time_tot, r), st1)"
    by (metis surj_pair)
  with Cons.IH [OF Cons.prems, of "times_list[i := time_tot / of_int actual_batch_size]" r st1]
    Cons.prems(2)
  show ?case by simp
qed

lemma warm_up_returns:
  assumes "never_raises func"
  shows "\<exists>r st'. warm_up func kwargs timer buf st = (Inr r, st')"
proof -
  obtain t0 st1 where a: "timer_now timer (gc_disable (gc_collect st)) = (t0, st1)" by fastforce
  from call_never_raises [OF assms] obtain r st2
    where c: "call func kwargs buf st1 = (Inr r, st2)" by blast
  obtain t1 st3 where b: "timer_now timer st2 = (t1, st3)" by fastforce
  obtain d st4 where d: "timer_time_delta timer t0 t1 st3 = (d, st4)" by fastforce
  from a c b d show ?thesis by (simp add: warm_up_def)
qed

lemma empty_like_effect:
  "empty_like env x st = (buf, st1) \<Longrightarrow>
   buf = length (heap st) \<and> trace st1 = trace st @ [Alloc buf] \<and>
   length (heap st1) = Suc (length (heap st)) \<and>
   (\<forall>y. y < length (heap st) \<longrightarrow> heap st1 ! y = heap st ! y) \<and>
   gc_enabled st1 = gc_enabled st"
  by (auto simp: empty_like_def nth_append)

text \<open>Everything after the checks, whatever its outcome.\<close>

lemma run_effect:
  fixes st :: "('a, 'r, 'e, 'w) state"
  assumes run: "run env func x kwargs timer batch_size repetitions refresh_buffer st = (out, st')"
  shows "(x < length (heap st) \<longrightarrow> heap st' ! x = heap st ! x) \<and>
    (\<exists>evs. trace st' = trace st @ evs \<and>
       list_all (harness_event (length (heap st)) x) evs \<and>
       (refresh_buffer \<and> x < length (heap st) \<longrightarrow> list_all (sees (heap st ! x)) evs) \<and>
       (0 \<le> repetitions \<longrightarrow>
          (\<exists>rest. evs = Alloc (length (heap st)) # CopyTo (length (heap st)) x # rest \<and>
             (\<not> refresh_buffer \<longrightarrow> copies_in rest = 0))))"
proof (cases "repetitions < 0")
  case True
  with run have "st' = st" by (simp add: run_def)
  with True show ?thesis by simp
next
  case False
  let ?b = "length (heap st)"
  obtain buf st1 where e: "empty_like env x st = (buf, st1)" by fastforce
  note ee = empty_like_effect [OF e]
  then have buf: "buf = ?b" by simp
  let ?st1c = "copyto buf x st1"
  have c1: "trace ?st1c = trace st @ [Alloc ?b, CopyTo ?b x]"
    "length (heap ?st1c) = Suc ?b"
    "x < ?b \<longrightarrow> heap ?st1c ! x = heap st ! x"
    "x < ?b \<longrightarrow> heap ?st1c ! buf = heap st ! x"
    using ee by auto
  obtain o2 st2 where w: "warm_up func kwargs timer buf ?st1c = (o2, st2)" by fastforce
  from warm_up_effect [OF w] obtain t0 where
    we: "length (heap st2) = length (heap ?st1c)" "\<forall>y. y \<noteq> buf \<longrightarrow> heap st2 ! y = heap ?st1c ! y"
      "\<forall>e. o2 = Inl e \<longrightarrow>
            (\<exists>e'. e = Raised e' \<and>
               trace st2 = trace ?st1c @
                 [GcCollect, GcDisable, Now t0, Call buf (heap ?st1c ! buf), Raise e'])"
      "\<forall>time_tot res. o2 = Inr (time_tot, res) \<longrightarrow>
            (\<exists>t1. time_tot = time_delta timer t0 t1 \<and>
               trace st2 = trace ?st1c @
                 [GcCollect, GcDisable, Now t0, Call buf (heap ?st1c ! buf), Return res,
                  Now t1, Delta t0 t1])"
    by blast
  have keep2: "x < ?b \<longrightarrow> heap st2 ! x = heap st ! x" using we(2) c1(3) buf by simp
  have warm: "\<exists>evs. trace st2 = trace st @ Alloc ?b # CopyTo ?b x # evs \<and>
      list_all (harness_event ?b x) evs \<and> copies_in evs = 0 \<and>
      (x < ?b \<longrightarrow> list_all (sees (heap st ! x)) evs)"
  proof (cases o2)
    case (Inl e)
    with we(3) c1 buf show ?thesis by auto
  next
    case (Inr p)
    with we(4) c1 buf show ?thesis by (cases p) auto
  qed
  then obtain evs where
    evs: "trace st2 = trace st @ Alloc ?b # CopyTo ?b x # evs" "list_all (harness_event ?b x) evs"
      "copies_in evs = 0" "x < ?b \<longrightarrow> list_all (sees (heap st ! x)) evs"
    by blast
  show ?thesis
  proof (cases "\<exists>time_tot res actual_batch_size. o2 = Inr (time_tot, res) \<and>
      determine_batch_size time_tot batch_size = (Inr actual_batch_size :: 'e error + int)")
    case nope: False
    with run False e w have "st' = st2" by (auto simp: run_def split: sum.splits)
    with evs keep2 show ?thesis by auto
  next
    case True
    then obtain time_tot res actual_batch_size where
      o2: "o2 = Inr (time_tot, res)"
        "determine_batch_size time_tot batch_size = (Inr actual_batch_size :: 'e error + int)"
      by blast
    obtain o3 st3 where m:
      "measurements func kwargs timer buf x refresh_buffer actual_batch_size [0..<nat repetitions]
         (np_empty env (nat repetitions), res) st2 = (o3, st3)"
      by fastforce
    from measurements_effect [OF m] obtain evs' where
      evs': "trace st3 = trace st2 @ evs'" "list_all (harness_event buf x) evs'"
        "length (heap st3) = length (heap st2)" "x \<noteq> buf \<longrightarrow> heap st3 ! x = heap st2 ! x"
        "refresh_buffer \<and> x \<noteq> buf \<and> buf < length (heap st2) \<longrightarrow>
           list_all (sees (heap st2 ! x)) evs'"
        "\<not> refresh_buffer \<longrightarrow> copies_in evs' = 0"
      by blast
    have tr: "trace st' = trace st3 @ (case o3 of Inl e \<Rightarrow> [] | Inr r \<Rightarrow> [GcEnable])"
      and hp: "heap st' = heap st3"
      using run False e w o2 m by (auto simp: run_def gc_enable_def split: sum.splits)
    let ?tail = "(case o3 of Inl e \<Rightarrow> [] | Inr r \<Rightarrow> [GcEnable]) :: ('a, 'r, 'e) event list"
    let ?rest = "evs @ evs' @ ?tail"
    have tail: "list_all (harness_event ?b x) ?tail" "copies_in ?tail = 0"
      "list_all (sees (heap st ! x)) ?tail"
      by (simp_all split: sum.splits)
    have "trace st' = trace st @ Alloc ?b # CopyTo ?b x # ?rest" using tr evs(1) evs'(1) by simp
    moreover have "list_all (harness_event ?b x) (Alloc ?b # CopyTo ?b x # ?rest)"
      using evs(2) evs'(2) tail(1) buf by simp
    moreover have "refresh_buffer \<and> x < ?b \<longrightarrow>
        list_all (sees (heap st ! x)) (Alloc ?b # CopyTo ?b x # ?rest)"
      using evs(4) evs'(5) tail(3) keep2 we(1) c1(2) buf by auto
    moreover have "\<not> refresh_buffer \<longrightarrow> copies_in ?rest = 0"
      using evs(3) evs'(6) tail(2) by simp
    moreover have "x < ?b \<longrightarrow> heap st' ! x = heap st ! x"
      using hp evs'(4) keep2 buf by auto
    ultimately show ?thesis by blast
  qed
qed

text \<open>Everything after the checks, when it completes.\<close>

lemma run_completes:
  fixes st :: "('a, 'r, 'e, 'w) state"
  assumes run: "run env func x kwargs timer batch_size repetitions refresh_buffer st
      = (Inr (times_list, res), st')"
  shows "\<exists>c t0 r0 t1 E segs. 0 \<le> repetitions \<and> gc_enabled st' \<and>
     trace st' = trace st @
       [Alloc (length (heap st)), CopyTo (length (heap st)) x, GcCollect, GcDisable,
        Now t0, Call (length (heap st)) c, Return r0, Now t1, Delta t0 t1] @
       concat segs @ [GcEnable] \<and>
     determine_batch_size (time_delta timer t0 t1) batch_size = (Inr E :: 'e error + int) \<and>
     length segs = nat repetitions \<and> (0 < repetitions \<longrightarrow> E \<noteq> 0) \<and>
     times_list = map (\<lambda>seg. total timer seg / of_int E) segs \<and>
     (\<forall>seg \<in> set segs. calls_in seg = nat E \<and> (\<not> refresh_buffer \<longrightarrow> bracket seg)) \<and>
     res = last (r0 # results_in (concat segs))"
proof -
  let ?b = "length (heap st)"
  let ?n = "nat repetitions"
  from run have reps: "0 \<le> repetitions" by (auto simp: run_def split: if_splits)
  obtain buf st1 where e: "empty_like env x st = (buf, st1)" by fastforce
  note ee = empty_like_effect [OF e]
  then have buf: "buf = ?b" by simp
  let ?st1c = "copyto buf x st1"
  have c1: "trace ?st1c = trace st @ [Alloc ?b, CopyTo ?b x]" using ee by simp
  obtain o2 st2 where w: "warm_up func kwargs timer buf ?st1c = (o2, st2)" by fastforce
  with run reps e obtain time_tot r0 E st3 where
    o2: "o2 = Inr (time_tot, r0)"
    and cal: "determine_batch_size time_tot batch_size = (Inr E :: 'e error + int)"
    and m: "measurements func kwargs timer buf x refresh_buffer E [0..<?n]
         (np_empty env ?n, r0) st2 = (Inr (times_list, res), st3)"
    and st': "st' = gc_enable st3"
    by (auto simp: run_def split: sum.splits prod.splits)
  from warm_up_effect [OF w] o2 obtain t0 t1 where
    we: "time_tot = time_delta timer t0 t1"
      "trace st2 = trace ?st1c @
         [GcCollect, GcDisable, Now t0, Call buf (heap ?st1c ! buf), Return r0, Now t1, Delta t0 t1]"
    by blast
  from measurements_segments [OF m] obtain segs where
    segs: "trace st3 = trace st2 @ concat segs" "length segs = length [0..<?n]"
      "[0..<?n] \<noteq> [] \<longrightarrow> E \<noteq> 0"
      "times_list = fold (assign timer E) (zip [0..<?n] segs) (np_empty env ?n)"
      "\<forall>seg \<in> set segs. calls_in seg = nat E \<and> (\<not> refresh_buffer \<longrightarrow> bracket seg)"
      "res = last (r0 # results_in (concat segs))"
    by blast
  have len: "length segs = ?n" using segs(2) by simp
  have "times_list = take 0 (np_empty env ?n) @ map (\<lambda>seg. total timer seg / of_int E) segs"
    unfolding segs(4) by (rule fold_assign_upt) (simp_all add: np_empty_def len)
  then have times: "times_list = map (\<lambda>seg. total timer seg / of_int E) segs" by simp
  have "trace st' = trace st @
       [Alloc ?b, CopyTo ?b x, GcCollect, GcDisable,
        Now t0, Call ?b (heap ?st1c ! buf), Return r0, Now t1, Delta t0 t1] @
       concat segs @ [GcEnable]"
    using st' segs(1) we(2) c1 buf by (simp add: gc_enable_def)
  moreover have "gc_enabled st'" using st' by (simp add: gc_enable_def)
  moreover have "0 < repetitions \<longrightarrow> E \<noteq> 0" using segs(3) by simp
  ultimately show ?thesis using reps cal we(1) len times segs(5,6) by blast
qed

lemma run_returns:
  fixes st :: "('a, 'r, 'e, 'w) state"
  assumes "never_raises func" and "1 \<le> batch_size" and "0 \<le> repetitions"
  shows "\<exists>r st'. run env func x kwargs timer batch_size repetitions refresh_buffer st = (Inr r, st')"
proof -
  obtain buf st1 where e: "empty_like env x st = (buf, st1)" by fastforce
  from warm_up_returns [OF assms(1)] obtain time_tot r0 st2 where
    w: "warm_up func kwargs timer buf (copyto buf x st1) = (Inr (time_tot, r0), st2)"
    by (metis surj_pair)
  from calibration_at_least_one [OF assms(2)] obtain E where
    cal: "determine_batch_size time_tot batch_size = (Inr E :: 'e error + int)" "1 \<le> E"
    by blast
  then have "E \<noteq> 0" by simp
  from measurements_returns [OF assms(1) this] obtain r st3 where
    "measurements func kwargs timer buf x refresh_buffer E [0..<nat repetitions]
         (np_empty env (nat repetitions), r0) st2 = (Inr r, st3)"
    by blast
  with e w cal(1) assms(3) show ?thesis by (simp add: run_def)
qed

lemma time_func_valid:
  fixes st :: "('a, 'r, 'e, 'w) state"
  shows "resolve_timer env timer = (Inr tm :: 'e error + 'w Timer) \<Longrightarrow>
   time_func env func (NDArray xa) (Dict kw) timer batch_size repetitions refresh_buffer st =
     run env func xa kw tm batch_size repetitions refresh_buffer st"
  by (simp add: time_func_def)

lemma time_func_cases:
  fixes st :: "('a, 'r, 'e, 'w) state"
  assumes "time_func env func x kwargs timer batch_size repetitions refresh_buffer st = (out, st')"
  obtains (stopped) e where "out = Inl e" and "st' = st"
  | (ran) xa kw tm where "x = NDArray xa" and "kwargs = Dict kw"
      and "resolve_timer env timer = (Inr tm :: 'e error + 'w Timer)"
      and "run env func xa kw tm batch_size repetitions refresh_buffer st = (out, st')"
  using assms by (auto simp: time_func_def split: pyobj.splits sum.splits)

section \<open>Evaluating the examples\<close>

lemmas run_defs = time_func_def resolve_timer_def run_def warm_up_def batch_def
  determine_batch_size_def py_int_def np_empty_def get_timer_def default_time_modules_def

lemmas eval_simps = run_defs prim_defs example_defs eval_nat_numeral upt_rec

lemma negate_in_place_never_raises: "never_raises negate_in_place"
  by (simp add: never_raises_def negate_in_place_def)

section \<open>The collector's flag\<close>

text \<open>
  C1, as the code has it. When \<open>time_func\<close> returns normally the collector is enabled,
  whatever its state was before the call, so the state is restored when it was enabled
  before. When an argument check fails, the flag is the one it was called with. The
  statement is silent on a call in which the timed function raises.
\<close>

theorem time_func_gc_enabled_on_return:
  assumes "time_func env func x kwargs timer batch_size repetitions refresh_buffer st = (out, st')"
  shows "(\<forall>r. out = Inr r \<longrightarrow> gc_enabled st') \<and>
    ((\<forall>a. x \<noteq> NDArray a) \<or> (\<forall>k. kwargs \<noteq> Dict k) \<longrightarrow> gc_enabled st' = gc_enabled st)"
  using assms
proof (cases rule: time_func_cases)
  case (stopped e)
  then show ?thesis by simp
next
  case (ran xa kw tm)
  have "gc_enabled st'" if "out = Inr r" for r
    using run_completes [of env func xa kw tm batch_size repetitions refresh_buffer st "fst r" "snd r" st']
      ran(4) that by auto
  with ran show ?thesis by auto
qed

theorem time_func_gc_enabled_on_return_witness:
  "fst (time_func example_env negate_in_place (NDArray 0) (Dict ()) (Some wall_timer) 2 1 True
          example_state) = Inr ([1 / 2], [- 1, - 2, - 3]) \<and>
   gc_enabled (snd (time_func example_env negate_in_place (NDArray 0) (Dict ()) (Some wall_timer)
          2 1 True example_state)) \<and>
   gc_enabled (snd (time_func example_env negate_in_place Other (Dict ()) (Some wall_timer)
          2 1 True example_state)) = gc_enabled example_state"
proof -
  let ?r = "time_func example_env negate_in_place (NDArray 0) (Dict ()) (Some wall_timer) 2 1 True
          example_state"
  let ?s = "time_func example_env negate_in_place Other (Dict ()) (Some wall_timer) 2 1 True
          example_state"
  have r: "?r = (fst ?r, snd ?r)" and s: "?s = (fst ?s, snd ?s)" by simp_all
  have out: "fst ?r = Inr ([1 / 2], [- 1, - 2, - 3])" by (simp add: eval_simps)
  from time_func_gc_enabled_on_return [OF r] time_func_gc_enabled_on_return [OF s] out
  show ?thesis by simp
qed

text \<open>
  C1 as stated fails. With the collector enabled before the call and a function that
  raises in the warm-up, the exception leaves the harness with the collector disabled:
  \<^verbatim>\<open>gc.enable()\<close> is the last statement of the normal path only. With the collector
  disabled before the call, a normal return leaves it enabled: the state after differs
  from the state before.
\<close>

theorem time_func_gc_counterexample:
  "gc_enabled example_state \<and>
   fst (time_func example_env failing_func (NDArray 0) (Dict ()) (Some wall_timer) 16 24 True
          example_state) = Inl (Raised ''domain error'') \<and>
   \<not> gc_enabled (snd (time_func example_env failing_func (NDArray 0) (Dict ()) (Some wall_timer)
          16 24 True example_state)) \<and>
   \<not> gc_enabled (example_state\<lparr>gc_enabled := False\<rparr>) \<and>
   fst (time_func example_env negate_in_place (NDArray 0) (Dict ()) (Some wall_timer) 1 1 True
          (example_state\<lparr>gc_enabled := False\<rparr>)) = Inr ([1 / 2], [- 1, - 2, - 3]) \<and>
   gc_enabled (snd (time_func example_env negate_in_place (NDArray 0) (Dict ()) (Some wall_timer)
          1 1 True (example_state\<lparr>gc_enabled := False\<rparr>)))"
  by (simp add: eval_simps)

section \<open>The input array and the working buffer\<close>

text \<open>
  C8. The array \<open>x\<close> has the same contents after \<open>time_func\<close> as before, on every
  exit path and for both refresh disciplines. Every event of the harness is on the
  working buffer, a new array object that is not \<open>x\<close>: each call is handed the buffer,
  each copy writes the buffer and reads \<open>x\<close>.
\<close>

theorem time_func_input_untouched:
  assumes "xa < length (heap st)"
    and "time_func env func (NDArray xa) kwargs timer batch_size repetitions refresh_buffer st
      = (out, st')"
  shows "heap st' ! xa = heap st ! xa \<and>
    (\<exists>evs. trace st' = trace st @ evs \<and> list_all (harness_event (length (heap st)) xa) evs)"
  using assms(2)
proof (cases rule: time_func_cases)
  case (stopped e)
  then show ?thesis by simp
next
  case (ran xa' kw tm)
  with run_effect [OF ran(4)] assms(1) show ?thesis by auto
qed

theorem time_func_input_untouched_witness:
  "heap (snd (time_func example_env negate_in_place (NDArray 0) (Dict ()) (Some wall_timer) 2 1
          False example_state)) = [[1, 2, 3], [- 1, - 2, - 3]] \<and>
   heap (snd (time_func example_env negate_in_place (NDArray 0) (Dict ()) (Some wall_timer) 1 1
          False example_state)) ! 0 = heap example_state ! 0 \<and>
   (\<exists>evs. trace (snd (time_func example_env negate_in_place (NDArray 0) (Dict ())
          (Some wall_timer) 1 1 False example_state)) = trace example_state @ evs \<and>
      list_all (harness_event (length (heap example_state)) 0) evs)"
proof -
  let ?r = "time_func example_env negate_in_place (NDArray 0) (Dict ()) (Some wall_timer) 1 1
          False example_state"
  have r: "?r = (fst ?r, snd ?r)" by simp
  have x: "0 < length (heap example_state)" by (simp add: example_state_def)
  have "heap (snd (time_func example_env negate_in_place (NDArray 0) (Dict ()) (Some wall_timer) 2 1
          False example_state)) = [[1, 2, 3], [- 1, - 2, - 3]]"
    by (simp add: eval_simps)
  with time_func_input_untouched [OF x r] show ?thesis by simp
qed

lemma sees_all: "list_all (sees xs) evs \<Longrightarrow> Call b c \<in> set evs \<Longrightarrow> c = xs"
  by (induction evs) auto

text \<open>
  C3. With \<open>refresh_buffer = True\<close>, every call of the timed function that
  \<open>time_func\<close> makes, the warm-up and each call of each batch, is handed a buffer whose
  contents are those of \<open>x\<close>, also when the function overwrites the buffer in place.
\<close>

theorem time_func_refresh_sees_input:
  assumes "xa < length (heap st)"
    and "time_func env func (NDArray xa) kwargs timer batch_size repetitions True st = (out, st')"
  shows "\<exists>evs. trace st' = trace st @ evs \<and> (\<forall>b c. Call b c \<in> set evs \<longrightarrow> c = heap st ! xa)"
  using assms(2)
proof (cases rule: time_func_cases)
  case (stopped e)
  then show ?thesis by simp
next
  case (ran xa' kw tm)
  with run_effect [OF ran(4)] assms(1) obtain evs where
    "trace st' = trace st @ evs" "list_all (sees (heap st ! xa)) evs" by auto
  then show ?thesis using sees_all by blast
qed

theorem time_func_refresh_sees_input_witness:
  "heap example_state ! 0 = [1, 2, 3] \<and>
   trace (snd (time_func example_env negate_in_place (NDArray 0) (Dict ()) (Some wall_timer) 2 1
          True example_state)) =
     [Alloc 1, CopyTo 1 0, GcCollect, GcDisable, Now 0, Call 1 [1, 2, 3],
      Return [- 1, - 2, - 3], Now (1 / 2), Delta 0 (1 / 2),
      CopyTo 1 0, Now (1 / 2), Call 1 [1, 2, 3], Return [- 1, - 2, - 3], Now 1, Delta (1 / 2) 1,
      CopyTo 1 0, Now 1, Call 1 [1, 2, 3], Return [- 1, - 2, - 3], Now (3 / 2), Delta 1 (3 / 2),
      GcEnable]"
proof -
  let ?r = "time_func example_env negate_in_place (NDArray 0) (Dict ()) (Some wall_timer) 2 1
          True example_state"
  have r: "?r = (fst ?r, snd ?r)" by simp
  have x: "0 < length (heap example_state)" by (simp add: example_state_def)
  from time_func_refresh_sees_input [OF x r] show ?thesis by (simp add: eval_simps)
qed

section \<open>Calls, measurements and the effective batch size\<close>

lemma calls_in_concat:
  "(\<forall>seg \<in> set segs. calls_in seg = k) \<Longrightarrow> calls_in (concat segs) = length segs * k"
  by (induction segs) simp_all

text \<open>
  C10, as the code has it. When \<open>time_func\<close> returns normally, the function was called
  \<open>1 + repetitions * max 0 E\<close> times, where \<open>E\<close> is the batch size the calibration derived
  from the latency of the warm-up: one warm-up call and, in each repetition, \<open>E\<close> calls
  when \<open>E\<close> is not negative and none otherwise (\<^verbatim>\<open>range\<close> of a negative number is empty).
  With \<open>repetitions = 0\<close> the function is still called once, the result returned is the
  result of the warm-up and the series is empty.
\<close>

theorem time_func_call_count:
  fixes st :: "('a, 'r, 'e, 'w) state"
  assumes "resolve_timer env timer = (Inr tm :: 'e error + 'w Timer)"
    and "time_func env func (NDArray xa) kwargs timer batch_size repetitions refresh_buffer st
      = (Inr (times_list, res), st')"
  shows "\<exists>evs b c t0 r0 t1 E rest.
     trace st' = trace st @ evs \<and>
     evs = [Alloc b, CopyTo b xa, GcCollect, GcDisable,
            Now t0, Call b c, Return r0, Now t1, Delta t0 t1] @ rest \<and>
     determine_batch_size (time_delta tm t0 t1) batch_size = (Inr E :: 'e error + int) \<and>
     int (calls_in evs) = 1 + repetitions * max 0 E \<and>
     (repetitions = 0 \<longrightarrow> res = r0 \<and> times_list = [])"
  using assms(2)
proof (cases rule: time_func_cases)
  case (stopped e)
  then show ?thesis by simp
next
  case (ran xa' kw tm')
  with assms(1) have tm: "tm' = tm" and xa: "xa' = xa" by simp_all
  from run_completes [OF ran(4)] obtain c t0 r0 t1 E segs where
    r: "0 \<le> repetitions"
      "trace st' = trace st @
         [Alloc (length (heap st)), CopyTo (length (heap st)) xa, GcCollect, GcDisable,
          Now t0, Call (length (heap st)) c, Return r0, Now t1, Delta t0 t1] @
         concat segs @ [GcEnable]"
      "determine_batch_size (time_delta tm t0 t1) batch_size = (Inr E :: 'e error + int)"
      "length segs = nat repetitions"
      "times_list = map (\<lambda>seg. total tm seg / of_int E) segs"
      "\<forall>seg \<in> set segs. calls_in seg = nat E \<and> (\<not> refresh_buffer \<longrightarrow> bracket seg)"
      "res = last (r0 # results_in (concat segs))"
    unfolding tm xa by blast
  let ?rest = "concat segs @ [GcEnable]"
  let ?evs = "[Alloc (length (heap st)), CopyTo (length (heap st)) xa, GcCollect, GcDisable,
          Now t0, Call (length (heap st)) c, Return r0, Now t1, Delta t0 t1] @ ?rest"
  have "calls_in (concat segs) = length segs * nat E" using r(6) by (intro calls_in_concat) simp
  moreover have "int (nat E) = max 0 E" by simp
  ultimately have "int (calls_in (concat segs)) = repetitions * max 0 E"
    using r(1,4) by simp
  then have count: "int (calls_in ?evs) = 1 + repetitions * max 0 E" by simp
  have zero: "repetitions = 0 \<longrightarrow> res = r0 \<and> times_list = []" using r(4,5,7) by auto
  from r(2) r(3) count zero show ?thesis by blast
qed

theorem time_func_call_count_witness:
  "fst (time_func example_env negate_in_place (NDArray 0) (Dict ()) None 16 0 True example_state)
     = Inr ([], [- 1, - 2, - 3]) \<and>
   calls_in (trace (snd (time_func example_env negate_in_place (NDArray 0) (Dict ()) None 16 0
          True example_state))) = 1 \<and>
   trace (snd (time_func example_env negate_in_place (NDArray 0) (Dict ()) None 16 0
          True example_state)) =
     [Alloc 1, CopyTo 1 0, GcCollect, GcDisable, Now 0, Call 1 [1, 2, 3],
      Return [- 1, - 2, - 3], Now (1 / 2), Delta 0 (1 / 2), GcEnable] \<and>
   (determine_batch_size (1 / 2) 3 :: string error + int) = Inr 3 \<and>
   int (calls_in (trace (snd (time_func example_env negate_in_place (NDArray 0) (Dict ()) None 3 2
          False example_state)))) = 1 + 2 * max 0 3"
proof -
  let ?r = "time_func example_env negate_in_place (NDArray 0) (Dict ()) None 16 0 True
          example_state"
  have tm: "resolve_timer example_env None = (Inr \<lparr>name = ''time'', module = clock_module,
      now = time clock_module, time_delta = (\<lambda>t0 t1. t1 - t0)\<rparr> :: string error + real Timer)"
    by (simp add: eval_simps)
  have r: "?r = (Inr ([], [- 1, - 2, - 3]), snd ?r)" by (simp add: eval_simps)
  from time_func_call_count [OF tm r] show ?thesis by (simp add: eval_simps)
qed

text \<open>
  C10 as stated fails for a negative batch size. With \<open>batch_size = - 3\<close> and
  \<open>repetitions = 2\<close> the warm-up takes half a second, the calibration keeps \<open>- 3\<close>, each
  of the two repetitions makes no call and records \<open>0 / - 3\<close>, and \<open>time_func\<close> returns
  normally after the one warm-up call, where the claim's count is \<open>1 + 2 * (- 3) = - 5\<close>.
\<close>

theorem time_func_call_count_counterexample:
  "fst (time_func example_env negate_in_place (NDArray 0) (Dict ()) (Some wall_timer) (- 3) 2 True
          example_state) = Inr ([0, 0], [- 1, - 2, - 3]) \<and>
   trace (snd (time_func example_env negate_in_place (NDArray 0) (Dict ()) (Some wall_timer)
          (- 3) 2 True example_state)) =
     [Alloc 1, CopyTo 1 0, GcCollect, GcDisable, Now 0, Call 1 [1, 2, 3],
      Return [- 1, - 2, - 3], Now (1 / 2), Delta 0 (1 / 2), GcEnable] \<and>
   (determine_batch_size (time_delta wall_timer 0 (1 / 2)) (- 3) :: string error + int)
     = Inr (- 3) \<and>
   int (calls_in (trace (snd (time_func example_env negate_in_place (NDArray 0) (Dict ())
          (Some wall_timer) (- 3) 2 True example_state)))) = 1 \<and>
   int (calls_in (trace (snd (time_func example_env negate_in_place (NDArray 0) (Dict ())
          (Some wall_timer) (- 3) 2 True example_state)))) \<noteq> 1 + 2 * (- 3)"
  by (simp add: eval_simps)

lemma total_nonneg:
  "(\<forall>t0 t1. Delta t0 t1 \<in> set evs \<longrightarrow> 0 \<le> time_delta timer t0 t1) \<Longrightarrow> 0 \<le> total timer evs"
proof (induction evs)
  case Nil
  then show ?case by simp
next
  case (Cons e evs)
  then have "0 \<le> total timer evs" by simp
  moreover have "0 \<le> measured timer e" using Cons.prems by (cases e) simp_all
  ultimately show ?case by simp
qed

text \<open>
  C4. For an array \<open>x\<close>, a dictionary \<open>kwargs\<close>, a batch size of at least 1, a
  number of repetitions that is not negative, a timer that resolves and a function that
  never raises, \<open>time_func\<close> returns: a series of exactly \<open>repetitions\<close> values, each
  non-negative when every time delta the run measured is non-negative, and the result of
  the last call it made.
\<close>

theorem time_func_returns_measurements:
  fixes st :: "('a, 'r, 'e, 'w) state"
  assumes "never_raises func" and "1 \<le> batch_size" and "0 \<le> repetitions"
    and "resolve_timer env timer = (Inr tm :: 'e error + 'w Timer)"
  shows "\<exists>times_list res st' evs.
     time_func env func (NDArray xa) (Dict kw) timer batch_size repetitions refresh_buffer st
       = (Inr (times_list, res), st') \<and>
     int (length times_list) = repetitions \<and>
     trace st' = trace st @ evs \<and>
     ((\<forall>t0 t1. Delta t0 t1 \<in> set evs \<longrightarrow> 0 \<le> time_delta tm t0 t1) \<longrightarrow>
        (\<forall>m \<in> set times_list. 0 \<le> m)) \<and>
     results_in evs \<noteq> [] \<and> res = last (results_in evs)"
proof -
  from run_returns [OF assms(1,2,3)] obtain times_list res st' where
    run: "run env func xa kw tm batch_size repetitions refresh_buffer st
      = (Inr (times_list, res), st')"
    by (metis surj_pair)
  from run_completes [OF run] obtain c t0 r0 t1 E segs where
    r: "trace st' = trace st @
         [Alloc (length (heap st)), CopyTo (length (heap st)) xa, GcCollect, GcDisable,
          Now t0, Call (length (heap st)) c, Return r0, Now t1, Delta t0 t1] @
         concat segs @ [GcEnable]"
      "determine_batch_size (time_delta tm t0 t1) batch_size = (Inr E :: 'e error + int)"
      "length segs = nat repetitions"
      "times_list = map (\<lambda>seg. total tm seg / of_int E) segs"
      "res = last (r0 # results_in (concat segs))"
    by blast
  let ?evs = "[Alloc (length (heap st)), CopyTo (length (heap st)) xa, GcCollect, GcDisable,
          Now t0, Call (length (heap st)) c, Return r0, Now t1, Delta t0 t1] @
         concat segs @ [GcEnable]"
  from calibration_at_least_one [where ?'e = 'e, OF assms(2), of "time_delta tm t0 t1"] r(2)
  have E: "1 \<le> E" by auto
  have nonneg: "(\<forall>t0 t1. Delta t0 t1 \<in> set ?evs \<longrightarrow> 0 \<le> time_delta tm t0 t1) \<longrightarrow>
      (\<forall>m \<in> set times_list. 0 \<le> m)"
  proof (intro impI ballI)
    fix m
    assume deltas: "\<forall>t0 t1. Delta t0 t1 \<in> set ?evs \<longrightarrow> 0 \<le> time_delta tm t0 t1"
      and "m \<in> set times_list"
    with r(4) obtain seg where seg: "seg \<in> set segs" "m = total tm seg / of_int E" by auto
    have "\<forall>t0 t1. Delta t0 t1 \<in> set seg \<longrightarrow> 0 \<le> time_delta tm t0 t1"
    proof (intro allI impI)
      fix u0 u1 assume "Delta u0 u1 \<in> set seg"
      with seg(1) have "Delta u0 u1 \<in> set ?evs" by auto
      with deltas show "0 \<le> time_delta tm u0 u1" by blast
    qed
    then have "0 \<le> total tm seg" by (rule total_nonneg)
    with E seg(2) show "0 \<le> m" by simp
  qed
  have tf: "time_func env func (NDArray xa) (Dict kw) timer batch_size repetitions refresh_buffer st
       = (Inr (times_list, res), st')"
    using run assms(4) by (simp add: time_func_valid)
  have len: "int (length times_list) = repetitions" using r(3,4) assms(3) by simp
  have res: "results_in ?evs \<noteq> []" "res = last (results_in ?evs)" using r(5) by simp_all
  show ?thesis
    apply (rule exI [of _ times_list], rule exI [of _ res])
    apply (rule exI [of _ st'], rule exI [of _ ?evs])
    apply (intro conjI)
    apply (rule tf, rule len, rule r(1), rule nonneg, rule res(1), rule res(2))
    done
qed

theorem time_func_returns_measurements_witness:
  "time_func example_env negate_in_place (NDArray 0) (Dict ()) (Some wall_timer) 1 2 True
     example_state =
   (Inr ([1 / 2, 1 / 2], [- 1, - 2, - 3]),
    \<lparr>heap = [[1, 2, 3], [- 1, - 2, - 3]], gc_enabled = True, world = 3 / 2,
     trace =
       [Alloc 1, CopyTo 1 0, GcCollect, GcDisable, Now 0, Call 1 [1, 2, 3],
        Return [- 1, - 2, - 3], Now (1 / 2), Delta 0 (1 / 2),
        CopyTo 1 0, Now (1 / 2), Call 1 [1, 2, 3], Return [- 1, - 2, - 3], Now 1, Delta (1 / 2) 1,
        CopyTo 1 0, Now 1, Call 1 [1, 2, 3], Return [- 1, - 2, - 3], Now (3 / 2), Delta 1 (3 / 2),
        GcEnable]\<rparr>) \<and>
   0 \<le> time_delta wall_timer 0 (1 / 2) \<and> 0 \<le> time_delta wall_timer (1 / 2) 1 \<and>
   0 \<le> time_delta wall_timer 1 (3 / 2)"
proof -
  have tm: "resolve_timer example_env (Some wall_timer) = (Inr wall_timer :: string error + real Timer)"
    by (simp add: resolve_timer_def)
  from time_func_returns_measurements [OF negate_in_place_never_raises _ _ tm,
      where batch_size = 1 and repetitions = 2 and xa = 0 and kw = "()"
        and refresh_buffer = True and st = example_state]
  show ?thesis by (simp add: eval_simps)
qed

lemma total_calls: "list_all call_or_return calls \<Longrightarrow> total timer calls = 0"
proof (induction calls)
  case Nil
  then show ?case by simp
next
  case (Cons e calls)
  then show ?case by (cases e) simp_all
qed

lemma bracket_bracketed:
  assumes "bracket seg" and "calls_in seg = nat E"
  shows "bracketed timer E seg (total timer seg / of_int E)"
proof -
  from assms(1) obtain t0 t1 calls where
    seg: "seg = Now t0 # calls @ [Now t1, Delta t0 t1]" "list_all call_or_return calls"
    unfolding bracket_def by blast
  from seg(2) have "total timer calls = 0" by (rule total_calls)
  with seg(1) have "total timer seg = time_delta timer t0 t1" by simp
  moreover from seg(1) assms(2) have "calls_in calls = nat E" by simp
  ultimately have "seg = Now t0 # calls @ [Now t1, Delta t0 t1] \<and>
      list_all call_or_return calls \<and> calls_in calls = nat E \<and>
      total timer seg / of_int E = time_delta timer t0 t1 / of_int E"
    using seg by simp
  then show ?thesis unfolding bracketed_def
    by (intro exI [of _ t0] exI [of _ t1] exI [of _ calls])
qed

text \<open>
  C6. With \<open>refresh_buffer = False\<close>, for valid arguments and on every exit path, the
  harness allocates the buffer and copies \<open>x\<close> into it first, before the warm-up call,
  and never copies again. When the run completes, each repetition is one pair of time
  stamps around all the calls of its batch, and its measurement is the delta of that pair
  divided by the effective batch size.
\<close>

theorem time_func_copies_once:
  fixes st :: "('a, 'r, 'e, 'w) state"
  assumes "0 \<le> repetitions"
    and "resolve_timer env timer = (Inr tm :: 'e error + 'w Timer)"
    and "time_func env func (NDArray xa) (Dict kw) timer batch_size repetitions False st
      = (out, st')"
  shows "\<exists>b rest.
     trace st' = trace st @ Alloc b # CopyTo b xa # rest \<and> copies_in rest = 0 \<and>
     (\<forall>times_list res. out = Inr (times_list, res) \<longrightarrow>
        (\<exists>c t0 r0 t1 E segs.
           rest = [GcCollect, GcDisable, Now t0, Call b c, Return r0, Now t1, Delta t0 t1] @
             concat segs @ [GcEnable] \<and>
           determine_batch_size (time_delta tm t0 t1) batch_size = (Inr E :: 'e error + int) \<and>
           list_all2 (bracketed tm E) segs times_list))"
proof -
  let ?b = "length (heap st)"
  from assms(2,3) have run:
    "run env func xa kw tm batch_size repetitions False st = (out, st')"
    by (simp add: time_func_valid)
  from run_effect [OF run, THEN conjunct2] obtain evs where
    all: "trace st' = trace st @ evs \<and>
       list_all (harness_event ?b xa) evs \<and>
       (False \<and> xa < ?b \<longrightarrow> list_all (sees (heap st ! xa)) evs) \<and>
       (0 \<le> repetitions \<longrightarrow>
          (\<exists>rest. evs = Alloc ?b # CopyTo ?b xa # rest \<and> (\<not> False \<longrightarrow> copies_in rest = 0)))" ..
  from all have evs: "trace st' = trace st @ evs" by (rule conjunct1)
  from all assms(1) have "\<exists>rest. evs = Alloc ?b # CopyTo ?b xa # rest \<and> copies_in rest = 0"
    by simp
  then obtain rest where rest0: "evs = Alloc ?b # CopyTo ?b xa # rest" "copies_in rest = 0"
    by (elim exE conjE)
  have rest: "trace st' = trace st @ Alloc ?b # CopyTo ?b xa # rest" "copies_in rest = 0"
    using evs rest0 by simp_all
  show ?thesis
  proof (rule exI [of _ ?b], rule exI [of _ rest], intro conjI allI impI)
    show "trace st' = trace st @ Alloc ?b # CopyTo ?b xa # rest" by (rule rest(1))
    show "copies_in rest = 0" by (rule rest(2))
  next
    fix times_list res
    assume out: "out = Inr (times_list, res)"
    from run_completes [OF run [unfolded out]] obtain c t0 r0 t1 E segs where
      r: "trace st' = trace st @
           [Alloc ?b, CopyTo ?b xa, GcCollect, GcDisable,
            Now t0, Call ?b c, Return r0, Now t1, Delta t0 t1] @
           concat segs @ [GcEnable]"
        "determine_batch_size (time_delta tm t0 t1) batch_size = (Inr E :: 'e error + int)"
        "times_list = map (\<lambda>seg. total tm seg / of_int E) segs"
        "\<forall>seg \<in> set segs. calls_in seg = nat E \<and> (\<not> False \<longrightarrow> bracket seg)"
      by blast
    have "trace st @ Alloc ?b # CopyTo ?b xa # rest = trace st @
           [Alloc ?b, CopyTo ?b xa, GcCollect, GcDisable,
            Now t0, Call ?b c, Return r0, Now t1, Delta t0 t1] @
           concat segs @ [GcEnable]"
      using r(1) unfolding rest(1) .
    then have shape:
      "rest = [GcCollect, GcDisable, Now t0, Call ?b c, Return r0, Now t1, Delta t0 t1] @
             concat segs @ [GcEnable]"
      by simp
    have "\<forall>seg \<in> set segs. bracketed tm E seg (total tm seg / of_int E)"
      using r(4) by (simp add: bracket_bracketed)
    then have means: "list_all2 (bracketed tm E) segs times_list"
      unfolding r(3) by (simp add: list_all2_map2 list_all2_same)
    show "\<exists>c t0 r0 t1 E segs.
           rest = [GcCollect, GcDisable, Now t0, Call ?b c, Return r0, Now t1, Delta t0 t1] @
             concat segs @ [GcEnable] \<and>
           determine_batch_size (time_delta tm t0 t1) batch_size = (Inr E :: 'e error + int) \<and>
           list_all2 (bracketed tm E) segs times_list"
      apply (rule exI [of _ c], rule exI [of _ t0], rule exI [of _ r0], rule exI [of _ t1])
      apply (rule exI [of _ E], rule exI [of _ segs])
      apply (intro conjI)
      apply (rule shape, rule r(2), rule means)
      done
  qed
qed

theorem time_func_copies_once_witness:
  "time_func example_env negate_in_place (NDArray 0) (Dict ()) (Some wall_timer) 2 2 False
     example_state =
   (Inr ([1 / 2, 1 / 2], [- 1, - 2, - 3]),
    \<lparr>heap = [[1, 2, 3], [- 1, - 2, - 3]], gc_enabled = True, world = 5 / 2,
     trace =
       [Alloc 1, CopyTo 1 0, GcCollect, GcDisable, Now 0, Call 1 [1, 2, 3],
        Return [- 1, - 2, - 3], Now (1 / 2), Delta 0 (1 / 2),
        Now (1 / 2), Call 1 [- 1, - 2, - 3], Return [1, 2, 3], Call 1 [1, 2, 3],
        Return [- 1, - 2, - 3], Now (3 / 2), Delta (1 / 2) (3 / 2),
        Now (3 / 2), Call 1 [- 1, - 2, - 3], Return [1, 2, 3], Call 1 [1, 2, 3],
        Return [- 1, - 2, - 3], Now (5 / 2), Delta (3 / 2) (5 / 2),
        GcEnable]\<rparr>) \<and>
   bracketed wall_timer 2
     [Now (1 / 2), Call 1 [- 1, - 2, - 3], Return [1, 2, 3], Call 1 [1, 2, 3],
      Return [- 1, - 2, - 3], Now (3 / 2), Delta (1 / 2) (3 / 2)] (1 / 2)"
proof -
  let ?r = "time_func example_env negate_in_place (NDArray 0) (Dict ()) (Some wall_timer) 2 2
     False example_state"
  have tm: "resolve_timer example_env (Some wall_timer) = (Inr wall_timer :: string error + real Timer)"
    by (simp add: resolve_timer_def)
  have r: "?r = (fst ?r, snd ?r)" by simp
  have b: "bracketed wall_timer 2
     [Now (1 / 2), Call 1 [- 1, - 2, - 3], Return [1, 2, 3], Call 1 [1, 2, 3],
      Return [- 1, - 2, - 3], Now (3 / 2), Delta (1 / 2) (3 / 2)] (1 / 2)"
    unfolding bracketed_def
    by (intro exI [of _ "1 / 2"] exI [of _ "3 / 2"]
        exI [of _ "[Call 1 [- 1, - 2, - 3], Return [1, 2, 3], Call 1 [1, 2, 3],
          Return [- 1, - 2, - 3]]"])
      (simp add: wall_timer_def)
  from time_func_copies_once [OF _ tm r] b show ?thesis by (simp add: eval_simps)
qed


end
